theory Spec2Isabelle
  imports Complex_Main
begin

section \<open>Data model (types.ts)\<close>

text \<open>
  JavaScript numbers are modelled as exact reals: the constants of the program
  (0.92, 0.8, 0.08, 0.67, 120) and its arithmetic are read without rounding.
  NaN and the infinities are not represented. String ids and loop counters are
  naturals; the requested string count is an integer.
\<close>

datatype PitchRange = LOW | MID | HIGH

record StringConfig =
  sid :: nat
  "note" :: string
  color :: string
  xPos :: real

section \<open>String layout (constants.ts)\<close>

definition DEBOUNCE_MS :: real where
  "DEBOUNCE_MS = 120"

definition STRING_COLORS :: "string list" where
  "STRING_COLORS =
     [''#FF595E'', ''#FF924C'', ''#FFCA3A'', ''#C5CA30'', ''#8AC926'',
      ''#52A675'', ''#1982C4'', ''#4267AC'', ''#6A4C93'', ''#B5A6C9'']"

definition C_MAJOR_SCALE :: "string list" where
  "C_MAJOR_SCALE = [''C'', ''D'', ''E'', ''F'', ''G'', ''A'', ''B'']"

text \<open>The decimal rendering a template literal gives a non-negative integer.\<close>

definition digit_char :: "nat \<Rightarrow> char" where
  "digit_char d = ''0123456789'' ! d"

function decimal :: "nat \<Rightarrow> string" where
  "decimal n = (if n < 10 then [digit_char n]
                else decimal (n div 10) @ [digit_char (n mod 10)])"
  by pat_completeness auto
termination
  by (relation "measure (\<lambda>n. n)") auto

declare decimal.simps [simp del]

definition octaveStart_of :: "PitchRange \<Rightarrow> nat" where
  "octaveStart_of pitchRange =
     (let octaveStart = 4;
          octaveStart = (if pitchRange = LOW then 3 else octaveStart);
          octaveStart = (if pitchRange = HIGH then 5 else octaveStart)
      in octaveStart)"

text \<open>The object pushed by one iteration of the loop of \<open>generateStringConfigs\<close>.\<close>

definition config_at :: "int \<Rightarrow> nat \<Rightarrow> nat \<Rightarrow> StringConfig" where
  "config_at count octaveStart i =
     (let scaleIndex = i mod length C_MAJOR_SCALE;
          octaveShift = i div length C_MAJOR_SCALE
      in \<lparr> sid = i,
           note = C_MAJOR_SCALE ! scaleIndex @ decimal (octaveStart + octaveShift),
           color = STRING_COLORS ! (i mod length STRING_COLORS),
           xPos = (real i + 1) / (real_of_int count + 1) \<rparr>)"

text \<open>The loop \<open>for (let i = 0; i < count; i++) configs.push(...)\<close>.\<close>

function config_loop :: "int \<Rightarrow> nat \<Rightarrow> nat \<Rightarrow> StringConfig list \<Rightarrow> StringConfig list" where
  "config_loop count octaveStart i configs =
     (if int i < count
      then config_loop count octaveStart (Suc i) (configs @ [config_at count octaveStart i])
      else configs)"
  by pat_completeness auto
termination
  by (relation "measure (\<lambda>(count, octaveStart, i, configs). nat count - i)") auto

declare config_loop.simps [simp del]

definition generateStringConfigs :: "int \<Rightarrow> PitchRange \<Rightarrow> StringConfig list" where
  "generateStringConfigs count pitchRange = config_loop count (octaveStart_of pitchRange) 0 []"

section \<open>Hand-tracking adapter (services/visionService.ts)\<close>

text \<open>
  A landmark is a point in normalised image coordinates (its \<open>z\<close> is never read); a
  hand is the dense array of its landmarks. \<open>landmark_at h i\<close> is the JavaScript read
  \<open>h[i]\<close>, with \<open>None\<close> for \<open>undefined\<close>.
\<close>

record NormalizedLandmark =
  lx :: real
  ly :: real

type_synonym Hand = "NormalizedLandmark list"

definition landmark_at :: "'a list \<Rightarrow> nat \<Rightarrow> 'a option" where
  "landmark_at xs i = (if i < length xs then Some (xs ! i) else None)"

record Video =
  currentTime :: real
  readyState :: nat

datatype error = DetectorError | TypeError

text \<open>
  The underlying MediaPipe detector is external. What \<open>detectForVideo\<close> answers for a
  frame, a list of hands or an exception, is an input of the model; the adapter records
  whether the detector object exists and, as a ghost counter, how often it was invoked.
\<close>

record VisionService =
  handLandmarker :: bool
  lastVideoTime :: real
  detectorCalls :: nat

definition new_VisionService :: VisionService where
  "new_VisionService = \<lparr> handLandmarker = False, lastVideoTime = - 1, detectorCalls = 0 \<rparr>"

text \<open>The successful completion of \<open>initialize\<close>.\<close>

definition initialize :: "VisionService \<Rightarrow> VisionService" where
  "initialize vs = vs\<lparr> handLandmarker := True \<rparr>"

text \<open>
  \<open>detect\<close> returns \<open>Inr None\<close> for \<open>null\<close>, \<open>Inr (Some hands)\<close> for a detector result
  with these landmarks, and \<open>Inl e\<close> when the detector throws: there is no handler, and
  \<open>lastVideoTime\<close> has been written before the detector runs.
\<close>

definition detect ::
  "VisionService \<Rightarrow> Video \<Rightarrow> error + Hand list \<Rightarrow> (error + Hand list option) \<times> VisionService" where
  "detect vs video detectForVideo =
     (if \<not> handLandmarker vs then (Inr None, vs)
      else if currentTime video \<noteq> lastVideoTime vs then
        (let vs' = vs\<lparr> lastVideoTime := currentTime video,
                        detectorCalls := detectorCalls vs + 1 \<rparr>
         in case detectForVideo of
              Inl e \<Rightarrow> (Inl e, vs')
            | Inr landmarks \<Rightarrow> (Inr (Some landmarks), vs'))
      else (Inr None, vs))"

section \<open>Instrument loading (services/audioService.ts)\<close>

datatype InstrumentName =
    acoustic_grand_piano | acoustic_guitar_nylon | marimba | violin | orchestral_harp
  | xylophone | music_box | celesta | glockenspiel

datatype Player = Player nat

text \<open>
  \<open>loadInstrument\<close> is asynchronous: it runs up to the \<open>await\<close>, and its continuation
  runs when the soundfont promise settles. The loads that are suspended at the
  \<open>await\<close> are kept, by their \<open>loadingName\<close>, in the ghost field \<open>inflight\<close>.
\<close>

record AudioService =
  ctx :: bool
  instrument :: "Player option"
  currentInstrumentName :: InstrumentName
  inflight :: "InstrumentName list"

definition new_AudioService :: "bool \<Rightarrow> AudioService" where
  "new_AudioService hasAudioContext =
     \<lparr> ctx = hasAudioContext, instrument = None,
       currentInstrumentName = acoustic_grand_piano, inflight = [] \<rparr>"

text \<open>The synchronous part of \<open>loadInstrument(name)\<close>.\<close>

definition loadInstrument :: "InstrumentName \<Rightarrow> AudioService \<Rightarrow> AudioService" where
  "loadInstrument name a =
     (if \<not> ctx a then a
      else if currentInstrumentName a = name \<and> instrument a \<noteq> None then a
      else a\<lparr> currentInstrumentName := name, inflight := inflight a @ [name] \<rparr>)"

text \<open>The continuation after the \<open>await\<close>, when the promise resolves with \<open>newPlayer\<close>.\<close>

definition loadInstrument_resolved ::
  "InstrumentName \<Rightarrow> Player \<Rightarrow> AudioService \<Rightarrow> AudioService" where
  "loadInstrument_resolved loadingName newPlayer a =
     (if loadingName \<notin> set (inflight a) then a
      else let a' = a\<lparr> inflight := remove1 loadingName (inflight a) \<rparr>
           in if currentInstrumentName a' = loadingName
              then a'\<lparr> instrument := Some newPlayer \<rparr> else a')"

text \<open>The \<open>catch\<close> branch, when the promise rejects: a warning, nothing else.\<close>

definition loadInstrument_rejected :: "InstrumentName \<Rightarrow> AudioService \<Rightarrow> AudioService" where
  "loadInstrument_rejected loadingName a =
     (if loadingName \<notin> set (inflight a) then a
      else a\<lparr> inflight := remove1 loadingName (inflight a) \<rparr>)"

datatype audio_event =
    Load InstrumentName
  | Resolved InstrumentName Player
  | Rejected InstrumentName

fun audio_step :: "AudioService \<Rightarrow> audio_event \<Rightarrow> AudioService" where
  "audio_step a (Load name) = loadInstrument name a"
| "audio_step a (Resolved loadingName newPlayer) = loadInstrument_resolved loadingName newPlayer a"
| "audio_step a (Rejected loadingName) = loadInstrument_rejected loadingName a"

definition audio_run :: "AudioService \<Rightarrow> audio_event list \<Rightarrow> AudioService" where
  "audio_run a evs = foldl audio_step a evs"

text \<open>The name of the most recent \<open>loadInstrument\<close> call of a trace, if there is one.\<close>

fun last_requested :: "audio_event list \<Rightarrow> InstrumentName option" where
  "last_requested [] = None"
| "last_requested (Load name # evs) =
     (case last_requested evs of None \<Rightarrow> Some name | Some n \<Rightarrow> Some n)"
| "last_requested (_ # evs) = last_requested evs"

section \<open>Interaction engine (components/SkyStage.tsx)\<close>

record Finger =
  fx :: real
  fy :: real
  visible :: bool

record Physics =
  vibration :: real
  bend :: real

text \<open>Every call \<open>triggerString(str, time, yPosNormalized)\<close> is logged as a pluck event.\<close>

record PluckEvent =
  stringId :: nat
  time :: real
  yPosNormalized :: real

text \<open>
  The refs of the component that the frame tick reads and writes. The two
  previous-position arrays have the fixed slots 0 and 1 and are modelled as functions
  of the slot; \<open>None\<close> in \<open>prevFingerX\<close> is \<open>null\<close>. Particles, confetti, the rainbow hue
  and the mascot counters are drawing state and are left out.
\<close>

record Stage =
  visionService :: VisionService
  cameraActiveRef :: bool
  lastLandmarksRef :: "Hand list option"
  prevFingerX :: "nat \<Rightarrow> real option"
  prevFingerVisible :: "nat \<Rightarrow> bool"
  lastTriggerTimes :: "nat \<rightharpoonup> real"
  stringPhysics :: "nat \<rightharpoonup> Physics"

definition new_Stage :: "VisionService \<Rightarrow> Stage" where
  "new_Stage vs =
     \<lparr> visionService = vs, cameraActiveRef = False, lastLandmarksRef = None,
       prevFingerX = (\<lambda>_. None), prevFingerVisible = (\<lambda>_. False),
       lastTriggerTimes = Map.empty, stringPhysics = Map.empty \<rparr>"

text \<open>The effect that keeps \<open>cameraActiveRef\<close> in sync with the \<open>cameraActive\<close> state.\<close>

definition cameraActive_effect :: "bool \<Rightarrow> Stage \<Rightarrow> Stage" where
  "cameraActive_effect cameraActive st =
     (let st1 = st\<lparr> cameraActiveRef := cameraActive \<rparr>
      in if \<not> cameraActive
         then st1\<lparr> lastLandmarksRef := None,
                   prevFingerX := (\<lambda>_. None),
                   prevFingerVisible := (\<lambda>_. False) \<rparr>
         else st1)"

text \<open>
  What one frame brings from outside: the canvas (its width and height) and the video
  element behind the refs, whether a 2d context is available, the strings of
  \<open>stringsRef\<close>, the clock read in the physics step, and the answer the detector
  gives if it is asked on this frame.
\<close>

record Frame =
  canvas :: "(real \<times> real) option"
  context2d :: bool
  videoEl :: "Video option"
  detectForVideo :: "error + Hand list"
  now :: real
  strings :: "StringConfig list"

datatype Outcome = EarlyReturn | Threw error | Rescheduled

subsection \<open>Step 2 of the tick: vision detection\<close>

text \<open>
  The skeleton and cursor drawing reads \<open>landmarks[0,5,6,7,8]\<close> only of a hand whose
  \<open>landmarks[8]\<close> exists, which in a dense array cannot fail. After the loop,
  \<open>allHands[0][8].x\<close> is read without a check and throws a TypeError when the first
  cached hand has no landmark 8.
\<close>

definition vision_detection :: "Frame \<Rightarrow> Video \<Rightarrow> Stage \<Rightarrow> (error + unit) \<times> Stage" where
  "vision_detection fr video st =
     (if cameraActiveRef st \<and> readyState video \<ge> 2 then
        (case detect (visionService st) video (detectForVideo fr) of
           (Inl e, vs) \<Rightarrow> (Inl e, st\<lparr> visionService := vs \<rparr>)
         | (Inr results, vs) \<Rightarrow>
             (let st1 = st\<lparr> visionService := vs,
                             lastLandmarksRef :=
                               (case results of
                                  None \<Rightarrow> lastLandmarksRef st
                                | Some landmarks \<Rightarrow>
                                    if length landmarks > 0 then Some landmarks
                                    else lastLandmarksRef st) \<rparr>
              in case lastLandmarksRef st1 of
                   None \<Rightarrow> (Inr (), st1)
                 | Some allHands \<Rightarrow>
                     if length allHands > 0 then
                       (case landmark_at (allHands ! 0) 8 of
                          None \<Rightarrow> (Inl TypeError, st1)
                        | Some indexTip \<Rightarrow> (Inr (), st1))
                     else (Inr (), st1)))
      else (Inr (), st))"

subsection \<open>Step 3 of the tick: physics and interaction\<close>

definition reachThreshold :: real where
  "reachThreshold = 0.08"

definition hidden_finger :: Finger where
  "hidden_finger = \<lparr> fx = - 1, fy = - 1, visible = False \<rparr>"

definition finger_of_slot :: "Hand list \<Rightarrow> nat \<Rightarrow> Finger" where
  "finger_of_slot allHands i =
     (case landmark_at allHands i of
        None \<Rightarrow> hidden_finger
      | Some hand \<Rightarrow>
          (case landmark_at hand 8 of
             None \<Rightarrow> hidden_finger
           | Some tip \<Rightarrow> \<lparr> fx = 1.0 - lx tip, fy = ly tip, visible = True \<rparr>))"

definition fingerPositions :: "Hand list option \<Rightarrow> Finger list" where
  "fingerPositions lastLandmarks =
     (case lastLandmarks of
        None \<Rightarrow> []
      | Some allHands \<Rightarrow>
          if length allHands > 0 then map (finger_of_slot allHands) [0, 1] else [])"

text \<open>The state the loop over the strings works on: physics, debounce ledger, event log.\<close>

type_synonym pass_state = "(nat \<rightharpoonup> Physics) \<times> (nat \<rightharpoonup> real) \<times> PluckEvent list"

text \<open>A write through the alias \<open>physics = stringPhysics.current[str.id]\<close>.\<close>

definition update_physics ::
  "nat \<Rightarrow> (Physics \<Rightarrow> Physics) \<Rightarrow> (nat \<rightharpoonup> Physics) \<Rightarrow> (nat \<rightharpoonup> Physics)" where
  "update_physics i f P = (case P i of None \<Rightarrow> P | Some physics \<Rightarrow> P(i \<mapsto> f physics))"

text \<open>One iteration of the bend loop over the fingers: the new \<open>closestBend\<close>.\<close>

definition closest_step :: "real \<Rightarrow> StringConfig \<Rightarrow> Physics \<Rightarrow> real \<Rightarrow> Finger \<Rightarrow> real" where
  "closest_step width str physics closestBend finger =
     (if \<not> visible finger then closestBend
      else let distToFingerX = fx finger - xPos str;
               isWithinReach = \<bar>distToFingerX\<bar> < reachThreshold
           in if isWithinReach \<and> vibration physics < 0.1 then
                (let pullFactor = 1.0 - (\<bar>distToFingerX\<bar> / reachThreshold);
                     bend = (distToFingerX * width) * pullFactor * 0.8
                 in if \<bar>bend\<bar> > \<bar>closestBend\<bar> then bend else closestBend)
              else closestBend)"

definition closestBend_of :: "real \<Rightarrow> StringConfig \<Rightarrow> Physics \<Rightarrow> Finger list \<Rightarrow> real" where
  "closestBend_of width str physics fingers = foldl (closest_step width str physics) 0 fingers"

text \<open>The physics part of \<open>triggerString\<close>, and the event it stands for.\<close>

definition triggerString :: "StringConfig \<Rightarrow> real \<Rightarrow> real \<Rightarrow> pass_state \<Rightarrow> pass_state" where
  "triggerString str t y = (\<lambda>(P, L, E).
     (update_physics (sid str) (\<lambda>physics. physics\<lparr> vibration := 1.0 \<rparr>) P,
      L(sid str \<mapsto> t),
      E @ [\<lparr> stringId = sid str, time = t, yPosNormalized = y \<rparr>]))"

text \<open>\<open>lastTriggerTimes.current[str.id] || 0\<close>.\<close>

definition lastTime_of :: "(nat \<rightharpoonup> real) \<Rightarrow> nat \<Rightarrow> real" where
  "lastTime_of L i = (case L i of None \<Rightarrow> 0 | Some t \<Rightarrow> t)"

text \<open>
  The crossing test of the trigger loop for the finger in slot \<open>fingerIndex\<close>: the finger
  is visible, was visible with a known previous x, is in the string area, and went
  over the string's position, to the right or to the left.
\<close>

definition crossing ::
  "(nat \<Rightarrow> real option) \<Rightarrow> (nat \<Rightarrow> bool) \<Rightarrow> StringConfig \<Rightarrow> nat \<times> Finger \<Rightarrow> bool" where
  "crossing prevX_ref prevVisible_ref str = (\<lambda>(fingerIndex, finger).
     visible finger \<and>
     (let isInStringArea = fy finger \<le> 0.67;
          wasVisible = prevVisible_ref fingerIndex
      in case prevX_ref fingerIndex of
           None \<Rightarrow> False
         | Some prevX \<Rightarrow>
             wasVisible \<and> isInStringArea \<and>
             (let crossedRight = prevX < xPos str \<and> fx finger \<ge> xPos str;
                  crossedLeft = prevX > xPos str \<and> fx finger \<le> xPos str
              in crossedRight \<or> crossedLeft)))"

text \<open>One iteration of the trigger loop over the fingers.\<close>

definition trigger_step ::
  "real \<Rightarrow> (nat \<Rightarrow> real option) \<Rightarrow> (nat \<Rightarrow> bool) \<Rightarrow> StringConfig \<Rightarrow>
   pass_state \<Rightarrow> nat \<times> Finger \<Rightarrow> pass_state" where
  "trigger_step t prevX_ref prevVisible_ref str s slot =
     (if crossing prevX_ref prevVisible_ref str slot then
        (let lastTime = lastTime_of (fst (snd s)) (sid str)
         in if t - lastTime > DEBOUNCE_MS then
              (case triggerString str t (fy (snd slot)) s of
                 (P, L, E) \<Rightarrow> (update_physics (sid str) (\<lambda>physics. physics\<lparr> bend := 0 \<rparr>) P, L, E))
            else s)
      else s)"

text \<open>The body of \<open>stringsRef.current.forEach\<close> for one string.\<close>

definition string_step ::
  "real \<Rightarrow> real \<Rightarrow> (nat \<Rightarrow> real option) \<Rightarrow> (nat \<Rightarrow> bool) \<Rightarrow> Finger list \<Rightarrow>
   pass_state \<Rightarrow> StringConfig \<Rightarrow> pass_state" where
  "string_step width t prevX_ref prevVisible_ref fingers s str =
     (case s of (P, L, E) \<Rightarrow>
        (let P1 = (if P (sid str) = None
                   then P(sid str \<mapsto> \<lparr> vibration = 0, bend = 0 \<rparr>) else P);
             physics = (case P1 (sid str) of
                          None \<Rightarrow> \<lparr> vibration = 0, bend = 0 \<rparr> | Some ph \<Rightarrow> ph);
             closestBend = closestBend_of width str physics fingers;
             P2 = (if closestBend \<noteq> 0
                   then update_physics (sid str) (\<lambda>ph. ph\<lparr> bend := closestBend \<rparr>) P1
                   else update_physics (sid str) (\<lambda>ph. ph\<lparr> bend := bend ph * 0.8 \<rparr>) P1)
         in foldl (trigger_step t prevX_ref prevVisible_ref str) (P2, L, E)
              (enumerate 0 fingers)))"

definition strings_pass ::
  "real \<Rightarrow> real \<Rightarrow> (nat \<Rightarrow> real option) \<Rightarrow> (nat \<Rightarrow> bool) \<Rightarrow> Finger list \<Rightarrow>
   pass_state \<Rightarrow> StringConfig list \<Rightarrow> pass_state" where
  "strings_pass width t prevX_ref prevVisible_ref fingers s strs =
     foldl (string_step width t prevX_ref prevVisible_ref fingers) s strs"

text \<open>The update of the previous finger positions after the loop over the strings.\<close>

definition commit_step ::
  "(nat \<Rightarrow> real option) \<times> (nat \<Rightarrow> bool) \<Rightarrow> nat \<times> Finger \<Rightarrow>
   (nat \<Rightarrow> real option) \<times> (nat \<Rightarrow> bool)" where
  "commit_step m slot =
     (case (m, slot) of ((prevX_ref, prevVisible_ref), (idx, finger)) \<Rightarrow>
        if visible finger
        then (prevX_ref(idx := Some (fx finger)), prevVisible_ref(idx := True))
        else (prevX_ref, prevVisible_ref(idx := False)))"

definition commit_fingers ::
  "(nat \<Rightarrow> real option) \<times> (nat \<Rightarrow> bool) \<Rightarrow> Finger list \<Rightarrow>
   (nat \<Rightarrow> real option) \<times> (nat \<Rightarrow> bool)" where
  "commit_fingers m fingers = foldl commit_step m (enumerate 0 fingers)"

subsection \<open>Step 4 of the tick: rendering, which decays the vibration\<close>

text \<open>
  For a string without a physics entry the renderer works on a temporary object, so
  nothing is stored. Only the vibration branch writes to the physics state.
\<close>

definition render_step :: "(nat \<rightharpoonup> Physics) \<Rightarrow> StringConfig \<Rightarrow> (nat \<rightharpoonup> Physics)" where
  "render_step P str =
     (case P (sid str) of
        None \<Rightarrow> P
      | Some phys \<Rightarrow>
          if vibration phys > 0.01
          then P(sid str \<mapsto> phys\<lparr> vibration := vibration phys * 0.92 \<rparr>)
          else P)"

definition renderStringsAndEffects ::
  "(nat \<rightharpoonup> Physics) \<Rightarrow> StringConfig list \<Rightarrow> (nat \<rightharpoonup> Physics)" where
  "renderStringsAndEffects P strs = foldl render_step P strs"

subsection \<open>The frame tick and the frame loop\<close>

text \<open>
  \<open>tick\<close> returns how the callback ended, the pluck events it fired, and the state it
  left. Only a tick that runs to its end requests the next animation frame.
\<close>

definition tick :: "Frame \<Rightarrow> Stage \<Rightarrow> Outcome \<times> PluckEvent list \<times> Stage" where
  "tick fr st =
     (case (canvas fr, videoEl fr) of
        (Some (width, height), Some video) \<Rightarrow>
          if \<not> context2d fr then (EarlyReturn, [], st)
          else
            (case vision_detection fr video st of
               (Inl e, st1) \<Rightarrow> (Threw e, [], st1)
             | (Inr _, st1) \<Rightarrow>
                 (let fingers = fingerPositions (lastLandmarksRef st1);
                      (P, L, E) = strings_pass width (now fr)
                                    (prevFingerX st1) (prevFingerVisible st1) fingers
                                    (stringPhysics st1, lastTriggerTimes st1, [])
                                    (strings fr);
                      (prevX_ref, prevVisible_ref) =
                         commit_fingers (prevFingerX st1, prevFingerVisible st1) fingers;
                      P' = renderStringsAndEffects P (strings fr)
                  in (Rescheduled, E,
                      st1\<lparr> prevFingerX := prevX_ref,
                           prevFingerVisible := prevVisible_ref,
                           lastTriggerTimes := L,
                           stringPhysics := P' \<rparr>)))
      | _ \<Rightarrow> (EarlyReturn, [], st))"

text \<open>
  The frame loop: each tick that requested the next frame is followed by the tick of
  that frame; a tick that returned early or threw ends the loop.
\<close>

fun frame_loop :: "Frame list \<Rightarrow> Stage \<Rightarrow> Outcome \<times> PluckEvent list \<times> Stage" where
  "frame_loop [] st = (Rescheduled, [], st)"
| "frame_loop (fr # frs) st =
     (case tick fr st of
        (Rescheduled, E, st') \<Rightarrow>
          (case frame_loop frs st' of (out, E', st'') \<Rightarrow> (out, E @ E', st''))
      | (out, E, st') \<Rightarrow> (out, E, st'))"

section \<open>Notions used to state the properties\<close>

text \<open>The physics entry a string has once the tick has seen it, fresh if it had none.\<close>

definition entry :: "(nat \<rightharpoonup> Physics) \<Rightarrow> nat \<Rightarrow> Physics" where
  "entry P i = (case P i of None \<Rightarrow> \<lparr> vibration = 0, bend = 0 \<rparr> | Some ph \<Rightarrow> ph)"

text \<open>The entry of a string right after a pluck, and after the bend update of a frame.\<close>

definition plucked :: Physics where
  "plucked = \<lparr> vibration = 1, bend = 0 \<rparr>"

definition bent :: "real \<Rightarrow> StringConfig \<Rightarrow> Finger list \<Rightarrow> Physics \<Rightarrow> Physics" where
  "bent w str fingers ph =
     (let c = closestBend_of w str ph fingers
      in ph\<lparr> bend := (if c \<noteq> 0 then c else bend ph * 0.8) \<rparr>)"

text \<open>The two statements of the trigger branch: \<open>triggerString\<close>, then the bend reset.\<close>

definition fire :: "StringConfig \<Rightarrow> real \<Rightarrow> real \<Rightarrow> pass_state \<Rightarrow> pass_state" where
  "fire str t y s =
     (case triggerString str t y s of
        (P, L, E) \<Rightarrow> (update_physics (sid str) (\<lambda>physics. physics\<lparr> bend := 0 \<rparr>) P, L, E))"

text \<open>The decay the renderer applies to one entry.\<close>

definition decay :: "real \<Rightarrow> real" where
  "decay v = (if v > 0.01 then v * 0.92 else v)"

definition decay_phys :: "Physics \<Rightarrow> Physics" where
  "decay_phys ph = ph\<lparr> vibration := decay (vibration ph) \<rparr>"

text \<open>
  Whether a string fires in a frame, and by which finger slot: the first slot whose
  finger crosses it, provided the ledger entry read at the start of the pass is older
  than the debounce time.
\<close>

definition fires ::
  "real \<Rightarrow> (nat \<Rightarrow> real option) \<Rightarrow> (nat \<Rightarrow> bool) \<Rightarrow> Finger list \<Rightarrow> (nat \<rightharpoonup> real) \<Rightarrow>
   StringConfig \<Rightarrow> (nat \<times> Finger) option" where
  "fires t pX pV fingers L str =
     (if t - lastTime_of L (sid str) > DEBOUNCE_MS
      then find (crossing pX pV str) (enumerate 0 fingers) else None)"

definition plucks_of ::
  "real \<Rightarrow> (nat \<Rightarrow> real option) \<Rightarrow> (nat \<Rightarrow> bool) \<Rightarrow> Finger list \<Rightarrow> (nat \<rightharpoonup> real) \<Rightarrow>
   StringConfig \<Rightarrow> PluckEvent list" where
  "plucks_of t pX pV fingers L str =
     (case fires t pX pV fingers L str of
        None \<Rightarrow> []
      | Some slot \<Rightarrow> [\<lparr> stringId = sid str, time = t, yPosNormalized = fy (snd slot) \<rparr>])"

text \<open>The invariant of claim C10 on a physics state.\<close>

definition vibration_bounded :: "(nat \<rightharpoonup> Physics) \<Rightarrow> bool" where
  "vibration_bounded P = (\<forall>i ph. P i = Some ph \<longrightarrow> 0 \<le> vibration ph \<and> vibration ph \<le> 1)"

text \<open>
  The previous-position memory agrees with the cached landmarks: every finger the
  cache shows is remembered as visible at the position the cache gives it. Every tick
  that runs to its end leaves the state so.
\<close>

definition prev_matches_cache :: "Stage \<Rightarrow> bool" where
  "prev_matches_cache st =
     (\<forall>slot \<in> set (enumerate 0 (fingerPositions (lastLandmarksRef st))).
        visible (snd slot) \<longrightarrow> prevFingerX st (fst slot) = Some (fx (snd slot)))"

text \<open>
  A frame of the sweep scenario: canvas, context and video are there, the video frame
  is new (its time is \<open>videoTime\<close>), and the detector answers with one hand whose index
  fingertip is at \<open>(x, y)\<close> in stage coordinates.
\<close>

definition finger_frame :: "StringConfig list \<Rightarrow> real \<Rightarrow> real \<times> real \<Rightarrow> Frame \<Rightarrow> bool" where
  "finger_frame strs y sample fr =
     (case sample of (videoTime, x) \<Rightarrow>
        canvas fr \<noteq> None \<and> context2d fr \<and> strings fr = strs \<and>
        (\<exists>video. videoEl fr = Some video \<and> readyState video \<ge> 2 \<and>
                 currentTime video = videoTime) \<and>
        (\<exists>hand tip. detectForVideo fr = Inr [hand] \<and> landmark_at hand 8 = Some tip \<and>
                    1 - lx tip = x \<and> ly tip = y))"

text \<open>
  The state in the middle of a sweep: the detector runs, the camera is on, the finger
  of slot 0 was last seen at \<open>x\<close>, and no string to the right of \<open>x\<close> has been
  triggered yet.
\<close>

definition sweep_inv :: "StringConfig list \<Rightarrow> real \<Rightarrow> real \<Rightarrow> Stage \<Rightarrow> bool" where
  "sweep_inv strs videoTime x st =
     (handLandmarker (visionService st) \<and> lastVideoTime (visionService st) = videoTime \<and>
      cameraActiveRef st \<and> prevFingerVisible st 0 \<and> prevFingerX st 0 = Some x \<and>
      (\<forall>str \<in> set strs. x < xPos str \<longrightarrow> lastTriggerTimes st (sid str) = None))"

text \<open>
  The events of a sweep to the right that starts at \<open>x\<close>: each frame, with the finger
  now at \<open>x'\<close>, plucks the strings between \<open>x\<close> and \<open>x'\<close> in list order, at its own
  clock reading.
\<close>

fun sweep_plucks :: "StringConfig list \<Rightarrow> real \<Rightarrow> real \<Rightarrow> (real \<times> Frame) list \<Rightarrow> PluckEvent list" where
  "sweep_plucks strs y x [] = []"
| "sweep_plucks strs y x ((x', fr) # rest) =
     map (\<lambda>str. \<lparr> stringId = sid str, time = now fr, yPosNormalized = y \<rparr>)
       (filter (\<lambda>str. x < xPos str \<and> xPos str \<le> x') strs)
     @ sweep_plucks strs y x' rest"

subsection \<open>Concrete inputs\<close>

text \<open>A hand of 21 landmarks whose index fingertip shows at \<open>(x, y)\<close> on the stage.\<close>

definition hand_at :: "real \<Rightarrow> real \<Rightarrow> Hand" where
  "hand_at x y = replicate 21 \<lparr> lx = 1 - x, ly = y \<rparr>"

definition frame_of ::
  "real \<Rightarrow> error + Hand list \<Rightarrow> real \<Rightarrow> StringConfig list \<Rightarrow> Frame" where
  "frame_of videoTime answer t strs =
     \<lparr> canvas = Some (1000, 800), context2d = True,
       videoEl = Some \<lparr> currentTime = videoTime, readyState = 4 \<rparr>,
       detectForVideo = answer, now = t, strings = strs \<rparr>"

text \<open>The state after a successful \<open>initialize\<close> and the start of the camera.\<close>

definition ready_Stage :: Stage where
  "ready_Stage = cameraActive_effect True (new_Stage (initialize new_VisionService))"

section \<open>Properties of the string layout\<close>

lemma config_loop_unfold:
  "i \<le> nat count \<Longrightarrow>
   config_loop count oct i configs = configs @ map (config_at count oct) [i..<nat count]"
proof (induction count oct i configs rule: config_loop.induct)
  case (1 count oct i configs)
  show ?case
  proof (cases "int i < count")
    case True
    then have le: "Suc i \<le> nat count" by linarith
    have "config_loop count oct i configs =
          config_loop count oct (Suc i) (configs @ [config_at count oct i])"
      using True by (simp add: config_loop.simps [of count oct i])
    also have "\<dots> = (configs @ [config_at count oct i]) @
                      map (config_at count oct) [Suc i..<nat count]"
      using "1.IH" [OF True le] .
    also have "\<dots> = configs @ map (config_at count oct) [i..<nat count]"
      using le by (simp add: upt_conv_Cons)
    finally show ?thesis .
  next
    case False
    then have stop: "config_loop count oct i configs = configs"
      by (simp add: config_loop.simps [of count oct i])
    from False "1.prems" have "[i..<nat count] = []" by simp
    with stop show ?thesis by simp
  qed
qed

lemma generateStringConfigs_map:
  "generateStringConfigs count pitchRange =
     map (config_at count (octaveStart_of pitchRange)) [0..<nat count]"
  by (simp add: generateStringConfigs_def config_loop_unfold)

lemma length_generateStringConfigs [simp]:
  "length (generateStringConfigs count pitchRange) = nat count"
  by (simp add: generateStringConfigs_map)

lemma nth_generateStringConfigs:
  "i < nat count \<Longrightarrow>
   generateStringConfigs count pitchRange ! i = config_at count (octaveStart_of pitchRange) i"
  by (simp add: generateStringConfigs_map)

lemma sid_config_at [simp]: "sid (config_at count oct i) = i"
  by (simp add: config_at_def Let_def)

lemma xPos_config_at [simp]:
  "xPos (config_at count oct i) = (real i + 1) / (real_of_int count + 1)"
  by (simp add: config_at_def Let_def)

lemma map_sid_generateStringConfigs:
  "map sid (generateStringConfigs count pitchRange) = [0..<nat count]"
  by (simp add: generateStringConfigs_map map_idI)

lemma xPos_generateStringConfigs_sorted:
  assumes "0 \<le> count"
  shows "sorted_wrt (<) (map xPos (generateStringConfigs count pitchRange))"
proof -
  have pos: "0 < real_of_int count + 1" using assms by simp
  have "xPos (generateStringConfigs count pitchRange ! i)
        < xPos (generateStringConfigs count pitchRange ! j)"
    if "i < j" "j < nat count" for i j
  proof -
    from that have "i < nat count" by simp
    with that pos show ?thesis
      by (simp add: nth_generateStringConfigs divide_strict_right_mono)
  qed
  then show ?thesis
    by (simp add: sorted_wrt_iff_nth_less)
qed

text \<open>
  Claim C6. For every string count \<open>N \<ge> 1\<close> and every pitch range,
  \<open>generateStringConfigs\<close> returns exactly \<open>N\<close> descriptors with ids
  \<open>0, \<dots>, N - 1\<close> in order, the \<open>i\<close>-th at \<open>(i + 1) / (N + 1)\<close>, every
  \<open>xPos\<close> strictly between 0 and 1, and \<open>xPos\<close> strictly increasing in id order.
  The generator reads nothing but its two arguments and the constant tables, so it is a
  function of them: equal inputs give equal output.
\<close>

theorem generateStringConfigs_layout:
  assumes "1 \<le> N"
  shows "length (generateStringConfigs N pitchRange) = nat N
       \<and> map sid (generateStringConfigs N pitchRange) = [0..<nat N]
       \<and> (\<forall>i<nat N. xPos (generateStringConfigs N pitchRange ! i)
                          = (real i + 1) / (real_of_int N + 1))
       \<and> (\<forall>c \<in> set (generateStringConfigs N pitchRange). 0 < xPos c \<and> xPos c < 1)
       \<and> sorted_wrt (<) (map xPos (generateStringConfigs N pitchRange))"
proof -
  have pos: "0 < real_of_int N + 1" using assms by simp
  have bounds: "0 < xPos c \<and> xPos c < 1"
    if "c \<in> set (generateStringConfigs N pitchRange)" for c
  proof -
    from that obtain i where i: "i < nat N" and c: "c = config_at N (octaveStart_of pitchRange) i"
      by (auto simp: generateStringConfigs_map)
    from i have "real i + 1 < real_of_int N + 1" by linarith
    with pos c show ?thesis by simp
  qed
  from assms have "0 \<le> N" by simp
  then have "sorted_wrt (<) (map xPos (generateStringConfigs N pitchRange))"
    by (rule xPos_generateStringConfigs_sorted)
  with bounds show ?thesis
    by (simp add: map_sid_generateStringConfigs nth_generateStringConfigs)
qed

theorem generateStringConfigs_layout_witness:
  "(1::int) \<le> 12
   \<and> length (generateStringConfigs 12 MID) = 12
   \<and> map sid (generateStringConfigs 12 MID) = [0..<12]
   \<and> xPos (generateStringConfigs 12 MID ! 3) = 4 / 13
   \<and> sorted_wrt (<) (map xPos (generateStringConfigs 12 MID))"
  using generateStringConfigs_layout [of 12 MID] by simp

section \<open>Properties of the adapter and of instrument loading\<close>

lemma detect_sets_lastVideoTime:
  assumes "handLandmarker vs" and "detect vs prev prevAnswer = (r0, vs1)"
  shows "handLandmarker vs1 \<and> lastVideoTime vs1 = currentTime prev"
  using assms by (auto simp: detect_def Let_def split: if_splits sum.splits)

text \<open>
  Claim C7. On an initialised adapter, a call of \<open>detect\<close> whose video time equals that
  of the previous call returns \<open>null\<close> and leaves the adapter as it was, so the detector
  is not invoked; a call with a different video time invokes the detector once and
  returns what it answers (its landmarks, or its exception).
\<close>

theorem detect_dedup:
  assumes "handLandmarker vs" and "detect vs prev prevAnswer = (r0, vs1)"
  shows "(currentTime video = currentTime prev \<longrightarrow>
            detect vs1 video answer = (Inr None, vs1))
       \<and> (currentTime video \<noteq> currentTime prev \<longrightarrow>
            detect vs1 video answer =
              ((case answer of Inl e \<Rightarrow> Inl e | Inr landmarks \<Rightarrow> Inr (Some landmarks)),
               vs1\<lparr> lastVideoTime := currentTime video,
                    detectorCalls := detectorCalls vs1 + 1 \<rparr>))"
proof -
  from assms have "handLandmarker vs1" "lastVideoTime vs1 = currentTime prev"
    using detect_sets_lastVideoTime by blast+
  then show ?thesis
    by (simp add: detect_def Let_def split: sum.splits)
qed


theorem detect_dedup_witness:
  "detect (snd (detect (initialize new_VisionService) \<lparr> currentTime = 0, readyState = 4 \<rparr> (Inr [])))
      \<lparr> currentTime = 0, readyState = 4 \<rparr> (Inr [[]])
    = (Inr None, \<lparr> handLandmarker = True, lastVideoTime = 0, detectorCalls = 1 \<rparr>)
   \<and> detect (snd (detect (initialize new_VisionService) \<lparr> currentTime = 0, readyState = 4 \<rparr> (Inr [])))
      \<lparr> currentTime = 1, readyState = 4 \<rparr> (Inr [[]])
    = (Inr (Some [[]]), \<lparr> handLandmarker = True, lastVideoTime = 1, detectorCalls = 2 \<rparr>)"
proof -
  have i: "handLandmarker (initialize new_VisionService)"
    by (simp add: initialize_def new_VisionService_def)
  have d: "detect (initialize new_VisionService) \<lparr> currentTime = 0, readyState = 4 \<rparr> (Inr [])
           = (Inr (Some []), \<lparr> handLandmarker = True, lastVideoTime = 0, detectorCalls = 1 \<rparr>)"
    by (simp add: detect_def initialize_def new_VisionService_def)
  show ?thesis
    using detect_dedup [OF i d, of "\<lparr> currentTime = 0, readyState = 4 \<rparr>" "Inr [[]]"]
          detect_dedup [OF i d, of "\<lparr> currentTime = 1, readyState = 4 \<rparr>" "Inr [[]]"]
    by (simp add: d)
qed


lemma ctx_loadInstrument [simp]: "ctx (loadInstrument n a) = ctx a"
  by (simp add: loadInstrument_def)
lemma ctx_audio_step [simp]: "ctx (audio_step a e) = ctx a"
  by (cases e) (simp_all add: loadInstrument_def loadInstrument_resolved_def loadInstrument_rejected_def Let_def)

lemma audio_run_Nil [simp]: "audio_run a [] = a" by (simp add: audio_run_def)
lemma audio_run_Cons [simp]: "audio_run a (e # es) = audio_run (audio_step a e) es" by (simp add: audio_run_def)
lemma audio_run_snoc [simp]: "audio_run a (es @ [e]) = audio_step (audio_run a es) e" by (simp add: audio_run_def)

lemma current_resolved [simp]:
  "currentInstrumentName (loadInstrument_resolved n p a) = currentInstrumentName a"
  by (simp add: loadInstrument_resolved_def Let_def)

lemma current_rejected [simp]:
  "currentInstrumentName (loadInstrument_rejected n a) = currentInstrumentName a"
  by (simp add: loadInstrument_rejected_def)

lemma current_no_request:
  "last_requested tr = None \<Longrightarrow> currentInstrumentName (audio_run a tr) = currentInstrumentName a"
proof (induction tr arbitrary: a)
  case Nil then show ?case by simp
next
  case (Cons e tr)
  show ?case
  proof (cases e)
    case (Load n)
    with Cons.prems show ?thesis by (simp split: option.splits)
  next
    case (Resolved n p)
    with Cons.prems have "last_requested tr = None" by simp
    from Cons.IH [OF this, of "audio_step a e"] Resolved show ?thesis by simp
  next
    case (Rejected n)
    with Cons.prems have "last_requested tr = None" by simp
    from Cons.IH [OF this, of "audio_step a e"] Rejected show ?thesis by simp
  qed
qed

lemma current_is_last_requested:
  "ctx a \<Longrightarrow> last_requested tr = Some b \<Longrightarrow> currentInstrumentName (audio_run a tr) = b"
proof (induction tr arbitrary: a)
  case Nil then show ?case by simp
next
  case (Cons e tr)
  show ?case
  proof (cases e)
    case (Load n)
    show ?thesis
    proof (cases "last_requested tr")
      case None
      with Cons.prems Load have "b = n" by simp
      moreover have "currentInstrumentName (loadInstrument n a) = n"
        using Cons.prems(1) by (simp add: loadInstrument_def)
      ultimately show ?thesis using None Load by (simp add: current_no_request)
    next
      case (Some m)
      with Cons.prems Load have "last_requested tr = Some b" by simp
      with Cons.IH [of "loadInstrument n a"] Cons.prems(1) Load show ?thesis by simp
    qed
  next
    case (Resolved n p)
    with Cons.prems have "last_requested tr = Some b" by simp
    with Cons.IH [of "audio_step a e"] Cons.prems(1) show ?thesis by simp
  next
    case (Rejected n)
    with Cons.prems have "last_requested tr = Some b" by simp
    with Cons.IH [of "audio_step a e"] Cons.prems(1) show ?thesis by simp
  qed
qed

lemma no_ctx_idle:
  "\<not> ctx a \<Longrightarrow> inflight a = [] \<Longrightarrow> audio_run a tr = a"
proof (induction tr arbitrary: a)
  case Nil then show ?case by simp
next
  case (Cons e tr)
  then have "audio_step a e = a"
    by (cases e) (simp_all add: loadInstrument_def loadInstrument_resolved_def loadInstrument_rejected_def)
  with Cons show ?case by simp
qed

text \<open>
  Claim C9. In every interleaving of \<open>loadInstrument\<close> calls and load completions: when
  a load of \<open>a\<close> resolves while the most recently requested instrument is some
  \<open>b \<noteq> a\<close>, the active player is left as it was.
\<close>

theorem superseded_load_discarded:
  assumes "last_requested tr = Some b" and "b \<noteq> a"
  shows "instrument (audio_run (new_AudioService c) (tr @ [Resolved a p]))
         = instrument (audio_run (new_AudioService c) tr)"
proof (cases c)
  case True
  then have "ctx (new_AudioService c)" by (simp add: new_AudioService_def)
  then have "currentInstrumentName (audio_run (new_AudioService c) tr) = b"
    using assms(1) by (rule current_is_last_requested)
  with assms(2) show ?thesis
    by (simp add: loadInstrument_resolved_def Let_def)
next
  case False
  then have "audio_run (new_AudioService c) tr = new_AudioService c"
    by (intro no_ctx_idle) (simp_all add: new_AudioService_def)
  then show ?thesis
    by (simp add: loadInstrument_resolved_def new_AudioService_def)
qed

theorem superseded_load_discarded_witness:
  "last_requested [Load violin, Load marimba] = Some marimba \<and> marimba \<noteq> violin
   \<and> instrument (audio_run (new_AudioService True)
                   ([Load violin, Load marimba] @ [Resolved violin (Player 1)])) = None
   \<and> instrument (audio_run (new_AudioService True)
                   [Load violin, Load marimba, Resolved violin (Player 1),
                    Resolved marimba (Player 2)]) = Some (Player 2)"
proof -
  have l: "last_requested [Load violin, Load marimba] = Some marimba" by simp
  have n: "marimba \<noteq> violin" by simp
  have none: "instrument (audio_run (new_AudioService True) [Load violin, Load marimba]) = None"
    by (simp add: new_AudioService_def loadInstrument_def)
  have later: "instrument (audio_run (new_AudioService True)
                   [Load violin, Load marimba, Resolved violin (Player 1),
                    Resolved marimba (Player 2)]) = Some (Player 2)"
    by (simp add: new_AudioService_def loadInstrument_def loadInstrument_resolved_def Let_def)
  from superseded_load_discarded [OF l n, of True "Player 1"] none l n later
  show ?thesis by simp
qed

section \<open>Evaluation on concrete inputs\<close>

lemma one_string: "generateStringConfigs 1 MID = [\<lparr> sid = 0, note = ''C4'', color = ''#FF595E'', xPos = 1 / 2 \<rparr>]"
  by (simp add: generateStringConfigs_map config_at_def octaveStart_of_def C_MAJOR_SCALE_def
        STRING_COLORS_def decimal.simps digit_char_def Let_def)

lemmas eval_defs = tick_def vision_detection_def detect_def fingerPositions_def finger_of_slot_def
  landmark_at_def hand_at_def frame_of_def ready_Stage_def cameraActive_effect_def new_Stage_def
  initialize_def new_VisionService_def strings_pass_def string_step_def closestBend_of_def
  closest_step_def trigger_step_def crossing_def triggerString_def update_physics_def
  lastTime_of_def commit_fingers_def commit_step_def renderStringsAndEffects_def render_step_def
  reachThreshold_def DEBOUNCE_MS_def hidden_finger_def Let_def enumerate_eq_zip

section \<open>The loop over the strings in closed form\<close>

lemma DEBOUNCE_MS_nonneg: "\<not> t - t > DEBOUNCE_MS"
  by (simp add: DEBOUNCE_MS_def)

lemma lastTime_of_upd [simp]:
  "lastTime_of (L(i \<mapsto> t)) j = (if j = i then t else lastTime_of L j)"
  by (simp add: lastTime_of_def)

lemma fire_simp:
  "fire str t y (P, L, E) =
     (update_physics (sid str) (\<lambda>ph. ph\<lparr> bend := 0 \<rparr>)
        (update_physics (sid str) (\<lambda>ph. ph\<lparr> vibration := 1 \<rparr>) P),
      L(sid str \<mapsto> t),
      E @ [\<lparr> stringId = sid str, time = t, yPosNormalized = y \<rparr>])"
  by (simp add: fire_def triggerString_def)

lemma trigger_step_simp:
  "trigger_step t pX pV str (P, L, E) slot =
     (if crossing pX pV str slot \<and> t - lastTime_of L (sid str) > DEBOUNCE_MS
      then fire str t (fy (snd slot)) (P, L, E) else (P, L, E))"
  by (simp add: trigger_step_def fire_def Let_def)

lemma trigger_fold_debounced:
  "\<not> t - lastTime_of L (sid str) > DEBOUNCE_MS \<Longrightarrow>
   foldl (trigger_step t pX pV str) (P, L, E) slots = (P, L, E)"
  by (induction slots) (simp_all add: trigger_step_simp)

lemma trigger_fold:
  "foldl (trigger_step t pX pV str) (P, L, E) slots =
     (case find (crossing pX pV str) slots of
        None \<Rightarrow> (P, L, E)
      | Some slot \<Rightarrow>
          if t - lastTime_of L (sid str) > DEBOUNCE_MS
          then fire str t (fy (snd slot)) (P, L, E) else (P, L, E))"
proof (induction slots)
  case Nil
  show ?case by simp
next
  case (Cons slot slots)
  show ?case
  proof (cases "crossing pX pV str slot \<and> t - lastTime_of L (sid str) > DEBOUNCE_MS")
    case True
    obtain P' E' where f: "fire str t (fy (snd slot)) (P, L, E) = (P', L(sid str \<mapsto> t), E')"
      by (simp add: fire_simp)
    have "\<not> t - lastTime_of (L(sid str \<mapsto> t)) (sid str) > DEBOUNCE_MS"
      by (simp add: DEBOUNCE_MS_def)
    then have "foldl (trigger_step t pX pV str) (P', L(sid str \<mapsto> t), E') slots
               = (P', L(sid str \<mapsto> t), E')"
      by (rule trigger_fold_debounced)
    with True f show ?thesis by (simp add: trigger_step_simp)
  next
    case False
    then have "trigger_step t pX pV str (P, L, E) slot = (P, L, E)"
      by (auto simp: trigger_step_simp)
    with False Cons.IH show ?thesis
      by (auto simp: trigger_fold_debounced split: option.splits)
  qed
qed

lemma string_step_eq:
  "string_step w t pX pV fingers (P, L, E) str =
     (case find (crossing pX pV str) (enumerate 0 fingers) of
        None \<Rightarrow> (P(sid str \<mapsto> bent w str fingers (entry P (sid str))), L, E)
      | Some slot \<Rightarrow>
          if t - lastTime_of L (sid str) > DEBOUNCE_MS
          then (P(sid str \<mapsto> plucked), L(sid str \<mapsto> t),
                E @ [\<lparr> stringId = sid str, time = t, yPosNormalized = fy (snd slot) \<rparr>])
          else (P(sid str \<mapsto> bent w str fingers (entry P (sid str))), L, E))"
  by (cases "P (sid str)")
     (auto simp: string_step_def Let_def trigger_fold fire_simp update_physics_def bent_def
        entry_def plucked_def split: option.splits)

lemma string_step_fires:
  "string_step w t pX pV fingers (P, L, E) str =
     (case fires t pX pV fingers L str of
        None \<Rightarrow> (P(sid str \<mapsto> bent w str fingers (entry P (sid str))), L, E)
      | Some slot \<Rightarrow>
          (P(sid str \<mapsto> plucked), L(sid str \<mapsto> t),
           E @ [\<lparr> stringId = sid str, time = t, yPosNormalized = fy (snd slot) \<rparr>]))"
  by (simp add: string_step_eq fires_def split: option.splits)

lemma fires_debounced:
  "\<not> t - lastTime_of L (sid str) > DEBOUNCE_MS \<Longrightarrow> fires t pX pV fingers L str = None"
  by (simp add: fires_def)

lemma fires_cong:
  "lastTime_of L' (sid str) = lastTime_of L (sid str) \<Longrightarrow>
   fires t pX pV fingers L' str = fires t pX pV fingers L str"
  by (simp add: fires_def)

lemma strings_pass_Nil [simp]: "strings_pass w t pX pV fingers s [] = s"
  by (simp add: strings_pass_def)

lemma strings_pass_Cons [simp]:
  "strings_pass w t pX pV fingers s (str # strs) =
     strings_pass w t pX pV fingers (string_step w t pX pV fingers s str) strs"
  by (simp add: strings_pass_def)

lemma string_step_other:
  assumes "string_step w t pX pV fingers (P, L, E) str = (P1, L1, E1)" and "sid str \<noteq> i"
  shows "P1 i = P i" "L1 i = L i" "lastTime_of L1 i = lastTime_of L i"
        "filter (\<lambda>e. stringId e = i) E1 = filter (\<lambda>e. stringId e = i) E"
  using assms by (auto simp: string_step_fires lastTime_of_def split: option.splits)

lemma pass_debounced:
  "\<not> t - lastTime_of L i > DEBOUNCE_MS \<Longrightarrow>
   strings_pass w t pX pV fingers (P, L, E) strs = (P', L', E') \<Longrightarrow>
   lastTime_of L' i = lastTime_of L i \<and>
   filter (\<lambda>e. stringId e = i) E' = filter (\<lambda>e. stringId e = i) E"
proof (induction strs arbitrary: P L E)
  case Nil
  then show ?case by simp
next
  case (Cons str strs)
  obtain P1 L1 E1 where st: "string_step w t pX pV fingers (P, L, E) str = (P1, L1, E1)"
    by (cases "string_step w t pX pV fingers (P, L, E) str") auto
  have keep: "lastTime_of L1 i = lastTime_of L i \<and>
              filter (\<lambda>e. stringId e = i) E1 = filter (\<lambda>e. stringId e = i) E"
  proof (cases "sid str = i")
    case True
    with Cons.prems(1) have "fires t pX pV fingers L str = None"
      by (simp add: fires_debounced)
    with st show ?thesis by (simp add: string_step_fires)
  next
    case False
    with st show ?thesis by (simp add: string_step_other)
  qed
  with Cons.prems(1) have "\<not> t - lastTime_of L1 i > DEBOUNCE_MS" by simp
  from Cons.IH [OF this] Cons.prems(2) st keep show ?case by simp
qed

lemma pass_at_most_one:
  "strings_pass w t pX pV fingers (P, L, E) strs = (P', L', E') \<Longrightarrow>
   \<exists>new. E' = E @ new \<and> (\<forall>e \<in> set new. time e = t) \<and>
         length (filter (\<lambda>e. stringId e = i) new) \<le> 1"
proof (induction strs arbitrary: P L E)
  case Nil
  then show ?case by simp
next
  case (Cons str strs)
  obtain P1 L1 E1 where st: "string_step w t pX pV fingers (P, L, E) str = (P1, L1, E1)"
    by (cases "string_step w t pX pV fingers (P, L, E) str") auto
  with Cons.prems have rest: "strings_pass w t pX pV fingers (P1, L1, E1) strs = (P', L', E')"
    by simp
  from Cons.IH [OF rest] obtain new where
    new: "E' = E1 @ new" "\<forall>e \<in> set new. time e = t"
         "length (filter (\<lambda>e. stringId e = i) new) \<le> 1"
    by blast
  show ?case
  proof (cases "fires t pX pV fingers L str")
    case None
    with st have "E1 = E" by (simp add: string_step_fires)
    with new show ?thesis by auto
  next
    case (Some slot)
    let ?ev = "\<lparr> stringId = sid str, time = t, yPosNormalized = fy (snd slot) \<rparr>"
    from Some st have E1: "E1 = E @ [?ev]" and L1: "L1 = L(sid str \<mapsto> t)"
      by (simp_all add: string_step_fires)
    have "length (filter (\<lambda>e. stringId e = i) (?ev # new)) \<le> 1"
    proof (cases "sid str = i")
      case True
      with L1 have "\<not> t - lastTime_of L1 i > DEBOUNCE_MS"
        by (simp add: DEBOUNCE_MS_def)
      from pass_debounced [OF this rest] new(1)
      have "filter (\<lambda>e. stringId e = i) new = []" by simp
      then show ?thesis by simp
    next
      case False
      with new(3) show ?thesis by simp
    qed
    with E1 new show ?thesis by (intro exI [of _ "?ev # new"]) simp
  qed
qed

lemma pass_distinct:
  "distinct (map sid strs) \<Longrightarrow>
   strings_pass w t pX pV fingers (P, L, E) strs = (P', L', E') \<Longrightarrow>
   E' = E @ concat (map (plucks_of t pX pV fingers L) strs) \<and>
   (\<forall>str \<in> set strs.
      P' (sid str) = Some (case fires t pX pV fingers L str of
                             None \<Rightarrow> bent w str fingers (entry P (sid str))
                           | Some slot \<Rightarrow> plucked) \<and>
      L' (sid str) = (case fires t pX pV fingers L str of
                        None \<Rightarrow> L (sid str) | Some slot \<Rightarrow> Some t)) \<and>
   (\<forall>i. i \<notin> sid ` set strs \<longrightarrow> P' i = P i \<and> L' i = L i)"
proof (induction strs arbitrary: P L E)
  case Nil
  then show ?case by simp
next
  case (Cons str strs)
  obtain P1 L1 E1 where st: "string_step w t pX pV fingers (P, L, E) str = (P1, L1, E1)"
    by (cases "string_step w t pX pV fingers (P, L, E) str") auto
  with Cons.prems have rest: "strings_pass w t pX pV fingers (P1, L1, E1) strs = (P', L', E')"
    by simp
  from Cons.prems(1) have d: "distinct (map sid strs)" and fresh: "sid str \<notin> sid ` set strs"
    by simp_all
  note IH = Cons.IH [OF d rest]
  have other: "P1 i = P i \<and> L1 i = L i \<and> lastTime_of L1 i = lastTime_of L i" if "i \<noteq> sid str" for i
    using string_step_other [OF st] that by auto
  have same: "fires t pX pV fingers L1 s = fires t pX pV fingers L s"
             "plucks_of t pX pV fingers L1 s = plucks_of t pX pV fingers L s"
             "entry P1 (sid s) = entry P (sid s)" "L1 (sid s) = L (sid s)"
    if "s \<in> set strs" for s
  proof -
    from that fresh have "sid s \<noteq> sid str" by (metis imageI)
    from other [OF this] show "fires t pX pV fingers L1 s = fires t pX pV fingers L s"
      "plucks_of t pX pV fingers L1 s = plucks_of t pX pV fingers L s"
      "entry P1 (sid s) = entry P (sid s)" "L1 (sid s) = L (sid s)"
      by (simp_all add: fires_def plucks_of_def entry_def)
  qed
  have E1: "E1 = E @ plucks_of t pX pV fingers L str"
    using st by (auto simp add: string_step_fires plucks_of_def split: option.splits)
  have head: "P1 (sid str) = Some (case fires t pX pV fingers L str of
                             None \<Rightarrow> bent w str fingers (entry P (sid str))
                           | Some slot \<Rightarrow> plucked)"
      "L1 (sid str) = (case fires t pX pV fingers L str of
                        None \<Rightarrow> L (sid str) | Some slot \<Rightarrow> Some t)"
    using st by (auto simp add: string_step_fires split: option.splits)
  have "map (plucks_of t pX pV fingers L1) strs = map (plucks_of t pX pV fingers L) strs"
    using same(2) by simp
  with IH E1 have ev: "E' = E @ concat (map (plucks_of t pX pV fingers L) (str # strs))"
    by simp
  have ent: "P' (sid s) = Some (case fires t pX pV fingers L s of
                             None \<Rightarrow> bent w s fingers (entry P (sid s))
                           | Some slot \<Rightarrow> plucked) \<and>
      L' (sid s) = (case fires t pX pV fingers L s of
                        None \<Rightarrow> L (sid s) | Some slot \<Rightarrow> Some t)"
    if "s \<in> set (str # strs)" for s
  proof (cases "s \<in> set strs")
    case True
    with IH same [OF True] show ?thesis by (simp split: option.splits)
  next
    case False
    with that have s: "s = str" by simp
    show ?thesis unfolding s using IH fresh head by simp
  qed
  have out: "P' i = P i \<and> L' i = L i" if "i \<notin> sid ` set (str # strs)" for i
  proof -
    from that have "i \<noteq> sid str" "i \<notin> sid ` set strs" by auto
    with IH other show ?thesis by simp
  qed
  from ev ent out show ?case by blast
qed

lemma pass_id:
  "strings_pass w t pX pV fingers (P, L, E) strs = (P', L', E') \<Longrightarrow>
   \<exists>new. E' = E @ new \<and> (\<forall>e \<in> set new. time e = t) \<and>
     (filter (\<lambda>e. stringId e = i) new = [] \<and> L' i = L i \<or>
      (\<exists>y. filter (\<lambda>e. stringId e = i) new = [\<lparr> stringId = i, time = t, yPosNormalized = y \<rparr>]) \<and>
      L' i = Some t \<and> DEBOUNCE_MS < t - lastTime_of L i)"
proof (induction strs arbitrary: P L E)
  case Nil
  then show ?case by simp
next
  case (Cons str strs)
  obtain P1 L1 E1 where st: "string_step w t pX pV fingers (P, L, E) str = (P1, L1, E1)"
    by (metis prod_cases3)
  with Cons.prems have rest: "strings_pass w t pX pV fingers (P1, L1, E1) strs = (P', L', E')"
    by simp
  from Cons.IH [OF rest] obtain new where
    new: "E' = E1 @ new" "\<forall>e \<in> set new. time e = t" and
    alt: "filter (\<lambda>e. stringId e = i) new = [] \<and> L' i = L1 i \<or>
      (\<exists>y. filter (\<lambda>e. stringId e = i) new = [\<lparr> stringId = i, time = t, yPosNormalized = y \<rparr>]) \<and>
      L' i = Some t \<and> DEBOUNCE_MS < t - lastTime_of L1 i"
    by blast
  show ?case
  proof (cases "fires t pX pV fingers L str")
    case None
    with st have "E1 = E" "L1 = L" by (simp_all add: string_step_fires)
    with new alt show ?thesis by blast
  next
    case (Some slot)
    let ?ev = "\<lparr> stringId = sid str, time = t, yPosNormalized = fy (snd slot) \<rparr>"
    from Some st have E1: "E1 = E @ [?ev]" and L1: "L1 = L(sid str \<mapsto> t)"
      by (simp_all add: string_step_fires)
    from Some have ok: "DEBOUNCE_MS < t - lastTime_of L (sid str)"
      by (simp add: fires_def split: if_splits)
    have E': "E' = E @ (?ev # new)" "\<forall>e \<in> set (?ev # new). time e = t"
      using E1 new by simp_all
    show ?thesis
    proof (cases "sid str = i")
      case True
      with L1 have "\<not> t - lastTime_of L1 i > DEBOUNCE_MS" by (simp add: DEBOUNCE_MS_def)
      with alt have "filter (\<lambda>e. stringId e = i) new = []" "L' i = L1 i" by auto
      with True L1 ok have
        "(\<exists>y. filter (\<lambda>e. stringId e = i) (?ev # new)
              = [\<lparr> stringId = i, time = t, yPosNormalized = y \<rparr>]) \<and>
         L' i = Some t \<and> DEBOUNCE_MS < t - lastTime_of L i"
        by auto
      with E' show ?thesis by blast
    next
      case False
      with L1 have "L1 i = L i" "lastTime_of L1 i = lastTime_of L i" by simp_all
      with alt False have
        "filter (\<lambda>e. stringId e = i) (?ev # new) = [] \<and> L' i = L i \<or>
         (\<exists>y. filter (\<lambda>e. stringId e = i) (?ev # new)
              = [\<lparr> stringId = i, time = t, yPosNormalized = y \<rparr>]) \<and>
         L' i = Some t \<and> DEBOUNCE_MS < t - lastTime_of L i"
        by auto
      with E' show ?thesis by blast
    qed
  qed
qed

section \<open>The frame tick\<close>

lemma vision_detection_frame:
  assumes "vision_detection fr v st = (r, st1)"
  shows "prevFingerX st1 = prevFingerX st" "prevFingerVisible st1 = prevFingerVisible st"
        "lastTriggerTimes st1 = lastTriggerTimes st" "stringPhysics st1 = stringPhysics st"
        "cameraActiveRef st1 = cameraActiveRef st"
  using assms
  by (auto simp: vision_detection_def Let_def split: if_splits prod.splits sum.splits option.splits)

lemma tick_early:
  "canvas fr = None \<or> videoEl fr = None \<or> \<not> context2d fr \<Longrightarrow> tick fr st = (EarlyReturn, [], st)"
  by (auto simp: tick_def split: option.splits prod.splits)

lemma tick_threw:
  "canvas fr = Some (w, h) \<Longrightarrow> videoEl fr = Some v \<Longrightarrow> context2d fr \<Longrightarrow>
   vision_detection fr v st = (Inl e, st1) \<Longrightarrow> tick fr st = (Threw e, [], st1)"
  by (simp add: tick_def)

lemma tick_ran:
  "canvas fr = Some (w, h) \<Longrightarrow> videoEl fr = Some v \<Longrightarrow> context2d fr \<Longrightarrow>
   vision_detection fr v st = (Inr u, st1) \<Longrightarrow>
   strings_pass w (now fr) (prevFingerX st) (prevFingerVisible st)
     (fingerPositions (lastLandmarksRef st1))
     (stringPhysics st, lastTriggerTimes st, []) (strings fr) = (P, L, E) \<Longrightarrow>
   tick fr st =
     (Rescheduled, E,
      st1\<lparr> prevFingerX :=
             fst (commit_fingers (prevFingerX st, prevFingerVisible st)
                    (fingerPositions (lastLandmarksRef st1))),
           prevFingerVisible :=
             snd (commit_fingers (prevFingerX st, prevFingerVisible st)
                    (fingerPositions (lastLandmarksRef st1))),
           lastTriggerTimes := L,
           stringPhysics := renderStringsAndEffects P (strings fr) \<rparr>)"
  by (simp add: tick_def vision_detection_frame Let_def split: prod.splits)

lemma tick_cases [consumes 1, case_names stopped ran]:
  assumes "tick fr st = (out, E, st')"
  obtains
    (stopped) "out \<noteq> Rescheduled" "E = []"
      "stringPhysics st' = stringPhysics st" "lastTriggerTimes st' = lastTriggerTimes st"
      "prevFingerX st' = prevFingerX st" "prevFingerVisible st' = prevFingerVisible st"
  | (ran) w h v u st1 P L where
      "canvas fr = Some (w, h)" "videoEl fr = Some v" "context2d fr"
      "vision_detection fr v st = (Inr u, st1)"
      "strings_pass w (now fr) (prevFingerX st) (prevFingerVisible st)
         (fingerPositions (lastLandmarksRef st1))
         (stringPhysics st, lastTriggerTimes st, []) (strings fr) = (P, L, E)"
      "out = Rescheduled"
      "st' = st1\<lparr> prevFingerX :=
             fst (commit_fingers (prevFingerX st, prevFingerVisible st)
                    (fingerPositions (lastLandmarksRef st1))),
           prevFingerVisible :=
             snd (commit_fingers (prevFingerX st, prevFingerVisible st)
                    (fingerPositions (lastLandmarksRef st1))),
           lastTriggerTimes := L,
           stringPhysics := renderStringsAndEffects P (strings fr) \<rparr>"
proof (cases "canvas fr = None \<or> videoEl fr = None \<or> \<not> context2d fr")
  case True
  from tick_early [OF this, of st] assms show ?thesis by (intro stopped) auto
next
  case False
  then obtain w h v where c: "canvas fr = Some (w, h)" "videoEl fr = Some v" "context2d fr"
    by auto
  obtain r st1 where vd: "vision_detection fr v st = (r, st1)"
    by (cases "vision_detection fr v st") auto
  show ?thesis
  proof (cases r)
    case (Inl e)
    with tick_threw [OF c, of st e st1] vd assms vision_detection_frame [OF vd]
    show ?thesis by (intro stopped) auto
  next
    case (Inr u)
    obtain P L E0 where sp: "strings_pass w (now fr) (prevFingerX st) (prevFingerVisible st)
         (fingerPositions (lastLandmarksRef st1))
         (stringPhysics st, lastTriggerTimes st, []) (strings fr) = (P, L, E0)"
      by (metis prod_cases3)
    from tick_ran [OF c _ sp, of u] vd Inr assms
    have "out = Rescheduled" "E = E0" "st' = st1\<lparr> prevFingerX :=
             fst (commit_fingers (prevFingerX st, prevFingerVisible st)
                    (fingerPositions (lastLandmarksRef st1))),
           prevFingerVisible :=
             snd (commit_fingers (prevFingerX st, prevFingerVisible st)
                    (fingerPositions (lastLandmarksRef st1))),
           lastTriggerTimes := L,
           stringPhysics := renderStringsAndEffects P (strings fr) \<rparr>"
      by simp_all
    with c vd Inr sp show ?thesis by (intro ran) auto
  qed
qed

lemma filter_plucks_distinct:
  "distinct (map sid strs) \<Longrightarrow> str \<in> set strs \<Longrightarrow>
   filter (\<lambda>e. stringId e = sid str) (concat (map (plucks_of t pX pV fingers L) strs))
   = plucks_of t pX pV fingers L str"
proof (induction strs)
  case Nil
  then show ?case by simp
next
  case (Cons a strs)
  have own: "filter (\<lambda>e. stringId e = i) (plucks_of t pX pV fingers L s)
             = (if sid s = i then plucks_of t pX pV fingers L s else [])" for s i
    by (simp add: plucks_of_def split: option.splits)
  show ?case
  proof (cases "str = a")
    case True
    with Cons.prems have "sid str \<notin> sid ` set strs" by simp
    then have "\<forall>s \<in> set strs. sid s \<noteq> sid str" by (metis imageI)
    then have "filter (\<lambda>e. stringId e = sid str)
                 (concat (map (plucks_of t pX pV fingers L) strs)) = []"
      by (induction strs) (simp_all add: own)
    with True show ?thesis by (simp add: own)
  next
    case False
    with Cons.prems have in_rest: "str \<in> set strs" and "sid a \<notin> sid ` set strs"
      and "distinct (map sid strs)"
      by auto
    then have "str \<in> set strs" "sid a \<noteq> sid str" "distinct (map sid strs)"
      by (simp, metis imageI, simp)
    with Cons.IH show ?thesis by (simp add: own)
  qed
qed

text \<open>The events of one string id in a tick, and what the tick writes to the ledger.\<close>

lemma tick_id:
  assumes "tick fr st = (out, E, st')"
  shows "filter (\<lambda>e. stringId e = i) E = [] \<and> lastTriggerTimes st' i = lastTriggerTimes st i \<or>
         (\<exists>y. filter (\<lambda>e. stringId e = i) E
               = [\<lparr> stringId = i, time = now fr, yPosNormalized = y \<rparr>]) \<and>
         lastTriggerTimes st' i = Some (now fr) \<and>
         DEBOUNCE_MS < now fr - lastTime_of (lastTriggerTimes st) i \<and> out = Rescheduled"
  using assms
proof (cases rule: tick_cases)
  case stopped
  then show ?thesis by simp
next
  case (ran w h v u st1 P L)
  from pass_id [OF ran(5), of i] ran(6,7) show ?thesis by auto
qed

lemma loop_id:
  "frame_loop frs st = (out, E, st') \<Longrightarrow>
   successively (\<lambda>a b. DEBOUNCE_MS < time b - time a) (filter (\<lambda>e. stringId e = i) E) \<and>
   (filter (\<lambda>e. stringId e = i) E = [] \<and> lastTriggerTimes st' i = lastTriggerTimes st i \<or>
    filter (\<lambda>e. stringId e = i) E \<noteq> [] \<and>
    DEBOUNCE_MS < time (hd (filter (\<lambda>e. stringId e = i) E)) - lastTime_of (lastTriggerTimes st) i \<and>
    lastTriggerTimes st' i = Some (time (last (filter (\<lambda>e. stringId e = i) E))))"
proof (induction frs arbitrary: st out E st')
  case Nil
  then show ?case by simp
next
  case (Cons fr frs)
  obtain o1 E1 st1 where t: "tick fr st = (o1, E1, st1)" by (metis prod_cases3)
  let ?F = "\<lambda>E. filter (\<lambda>e. stringId e = i) E"
  note one = tick_id [OF t, of i]
  show ?case
  proof (cases "o1 = Rescheduled")
    case False
    with Cons.prems t have "E = E1" "st' = st1" by (cases o1; simp)+
    with one False show ?thesis by auto
  next
    case True
    obtain o2 E2 st2 where l: "frame_loop frs st1 = (o2, E2, st2)" by (metis prod_cases3)
    with Cons.prems t True have E: "E = E1 @ E2" and st': "st' = st2" by simp_all
    note IH = Cons.IH [OF l]
    from one show ?thesis
    proof
      assume q: "?F E1 = [] \<and> lastTriggerTimes st1 i = lastTriggerTimes st i"
      then have "?F E = ?F E2" using E by simp
      moreover from q have "lastTime_of (lastTriggerTimes st1) i = lastTime_of (lastTriggerTimes st) i"
        by (simp add: lastTime_of_def)
      ultimately show ?thesis using IH q st' by simp
    next
      assume f: "(\<exists>y. ?F E1 = [\<lparr> stringId = i, time = now fr, yPosNormalized = y \<rparr>]) \<and>
         lastTriggerTimes st1 i = Some (now fr) \<and>
         DEBOUNCE_MS < now fr - lastTime_of (lastTriggerTimes st) i \<and> o1 = Rescheduled"
      then obtain y where F1: "?F E1 = [\<lparr> stringId = i, time = now fr, yPosNormalized = y \<rparr>]"
        by blast
      from f have l1: "lastTime_of (lastTriggerTimes st1) i = now fr"
        by (simp add: lastTime_of_def)
      have FE: "?F E = \<lparr> stringId = i, time = now fr, yPosNormalized = y \<rparr> # ?F E2"
        using E F1 by simp
      show ?thesis
      proof (cases "?F E2 = []")
        case True
        with IH f FE st' show ?thesis by simp
      next
        case False
        with IH l1 have g: "DEBOUNCE_MS < time (hd (?F E2)) - now fr"
          and s2: "successively (\<lambda>a b. DEBOUNCE_MS < time b - time a) (?F E2)"
          and l2: "lastTriggerTimes st2 i = Some (time (last (?F E2)))" by auto
        from False obtain e es where es: "?F E2 = e # es" by (cases "?F E2") auto
        with g s2 l2 f FE st' show ?thesis by simp
      qed
    qed
  qed
qed

lemma two_hands_detected:
  assumes c: "canvas fr = Some (w, h)" "videoEl fr = Some video" "context2d fr"
    and on: "cameraActiveRef st" "readyState video \<ge> 2" "handLandmarker (visionService st)"
      "currentTime video \<noteq> lastVideoTime (visionService st)"
    and a: "detectForVideo fr = Inr [handA, handB]"
      "landmark_at handA 8 = Some tipA" "landmark_at handB 8 = Some tipB"
    and t: "tick fr st = (out, E, st')"
  shows "out = Rescheduled"
    "fingerPositions (lastLandmarksRef st')
       = [\<lparr> fx = 1 - lx tipA, fy = ly tipA, visible = True \<rparr>,
          \<lparr> fx = 1 - lx tipB, fy = ly tipB, visible = True \<rparr>]"
proof -
  let ?vs = "(visionService st)\<lparr> lastVideoTime := currentTime video,
                 detectorCalls := detectorCalls (visionService st) + 1 \<rparr>"
  let ?st1 = "st\<lparr> visionService := ?vs, lastLandmarksRef := Some [handA, handB] \<rparr>"
  have vd: "vision_detection fr video st = (Inr (), ?st1)"
    using on a by (simp add: vision_detection_def detect_def Let_def)
  obtain P L E0 where sp: "strings_pass w (now fr) (prevFingerX st) (prevFingerVisible st)
         (fingerPositions (lastLandmarksRef ?st1))
         (stringPhysics st, lastTriggerTimes st, []) (strings fr) = (P, L, E0)"
    by (metis prod_cases3)
  from tick_ran [OF c vd sp] t show "out = Rescheduled" by simp
  from tick_ran [OF c vd sp] t have "lastLandmarksRef st' = Some [handA, handB]" by auto
  then show "fingerPositions (lastLandmarksRef st')
       = [\<lparr> fx = 1 - lx tipA, fy = ly tipA, visible = True \<rparr>,
          \<lparr> fx = 1 - lx tipB, fy = ly tipB, visible = True \<rparr>]"
    using a by (simp add: fingerPositions_def finger_of_slot_def landmark_at_def)
qed

text \<open>
  Claim C1. In every tick: a string whose ledger entry is at most \<open>DEBOUNCE_MS\<close> old
  fires no pluck event, whatever the fingers do, and no string fires more than once.
  The ledger is the record of the last trigger: the tick writes its clock reading into
  the entry of every string it fires and leaves the other entries alone, a string
  fires only in a tick that runs to its end and only when its entry is older than
  \<open>DEBOUNCE_MS\<close>, so a string fired in this tick fires in no next tick whose clock is
  at most \<open>DEBOUNCE_MS\<close> later, and the events of one string, in this tick and in
  any continuation of the frame loop, are successively more than \<open>DEBOUNCE_MS\<close>
  apart. When the detector shows two hands on a new video frame and both index
  fingers cross a string that is outside its debounce window, the tick runs to its
  end and fires exactly one event for that string, with the first finger's height.
\<close>

theorem debounce_per_string:
  assumes "tick fr st = (out, E, st')"
  shows "(now fr - lastTime_of (lastTriggerTimes st) i \<le> DEBOUNCE_MS \<longrightarrow>
            (\<forall>e \<in> set E. stringId e \<noteq> i))
       \<and> length (filter (\<lambda>e. stringId e = i) E) \<le> 1
       \<and> (out = Rescheduled \<and> distinct (map sid (strings fr)) \<and> str \<in> set (strings fr) \<and>
          fingerPositions (lastLandmarksRef st') = [f0, f1] \<and>
          crossing (prevFingerX st) (prevFingerVisible st) str (0, f0) \<and>
          crossing (prevFingerX st) (prevFingerVisible st) str (1, f1) \<and>
          now fr - lastTime_of (lastTriggerTimes st) (sid str) > DEBOUNCE_MS \<longrightarrow>
            filter (\<lambda>e. stringId e = sid str) E
              = [\<lparr> stringId = sid str, time = now fr, yPosNormalized = fy f0 \<rparr>])
       \<and> lastTriggerTimes st' i
            = (if \<exists>e \<in> set E. stringId e = i then Some (now fr) else lastTriggerTimes st i)
       \<and> ((\<exists>e \<in> set E. stringId e = i) \<longrightarrow>
            out = Rescheduled \<and> DEBOUNCE_MS < now fr - lastTime_of (lastTriggerTimes st) i)
       \<and> ((\<exists>e \<in> set E. stringId e = i) \<and> now next_fr - now fr \<le> DEBOUNCE_MS \<longrightarrow>
            (\<forall>e \<in> set (fst (snd (tick next_fr st'))). stringId e \<noteq> i))
       \<and> successively (\<lambda>a b. DEBOUNCE_MS < time b - time a)
            (filter (\<lambda>e. stringId e = i) (E @ fst (snd (frame_loop frs st'))))
       \<and> (canvas fr = Some (w, h) \<and> videoEl fr = Some video \<and> context2d fr \<and>
          cameraActiveRef st \<and> readyState video \<ge> 2 \<and> handLandmarker (visionService st) \<and>
          currentTime video \<noteq> lastVideoTime (visionService st) \<and>
          detectForVideo fr = Inr [handA, handB] \<and>
          landmark_at handA 8 = Some tipA \<and> landmark_at handB 8 = Some tipB \<and>
          distinct (map sid (strings fr)) \<and> str \<in> set (strings fr) \<and>
          crossing (prevFingerX st) (prevFingerVisible st) str
            (0, \<lparr> fx = 1 - lx tipA, fy = ly tipA, visible = True \<rparr>) \<and>
          crossing (prevFingerX st) (prevFingerVisible st) str
            (1, \<lparr> fx = 1 - lx tipB, fy = ly tipB, visible = True \<rparr>) \<and>
          now fr - lastTime_of (lastTriggerTimes st) (sid str) > DEBOUNCE_MS \<longrightarrow>
            out = Rescheduled \<and>
            filter (\<lambda>e. stringId e = sid str) E
              = [\<lparr> stringId = sid str, time = now fr, yPosNormalized = ly tipA \<rparr>] \<and>
            lastTriggerTimes st' (sid str) = Some (now fr))"
proof -
  let ?F = "\<lambda>E. filter (\<lambda>e. stringId e = i) E"
  have c: "filter (\<lambda>e. stringId e = sid str) E
              = [\<lparr> stringId = sid str, time = now fr, yPosNormalized = fy g0 \<rparr>]"
    if r: "out = Rescheduled"
      and d: "distinct (map sid (strings fr))" and s: "str \<in> set (strings fr)"
      and fs: "fingerPositions (lastLandmarksRef st') = [g0, g1]"
      and c0: "crossing (prevFingerX st) (prevFingerVisible st) str (0, g0)"
      and t: "now fr - lastTime_of (lastTriggerTimes st) (sid str) > DEBOUNCE_MS"
    for g0 g1
    using assms
  proof (cases rule: tick_cases)
    case stopped
    with r show ?thesis by simp
  next
    case (ran w h v u st1 P L)
    let ?fs = "fingerPositions (lastLandmarksRef st1)"
    have cache: "lastLandmarksRef st' = lastLandmarksRef st1" using ran(7) by simp
    from pass_distinct [OF d ran(5)]
    have "E = concat (map (plucks_of (now fr) (prevFingerX st) (prevFingerVisible st) ?fs
                 (lastTriggerTimes st)) (strings fr))" by simp
    then have "filter (\<lambda>e. stringId e = sid str) E
          = plucks_of (now fr) (prevFingerX st) (prevFingerVisible st) ?fs
                 (lastTriggerTimes st) str"
      using filter_plucks_distinct [OF d s] by simp
    also have "\<dots> = [\<lparr> stringId = sid str, time = now fr, yPosNormalized = fy g0 \<rparr>]"
      using fs cache c0 t by (simp add: plucks_of_def fires_def)
    finally show ?thesis .
  qed
  note one = tick_id [OF assms, of i]
  have ev: "(\<exists>e \<in> set E. stringId e = i) = (?F E \<noteq> [])"
    by (auto simp: filter_empty_conv)
  have a: "\<forall>e \<in> set E. stringId e \<noteq> i"
    if "now fr - lastTime_of (lastTriggerTimes st) i \<le> DEBOUNCE_MS"
    using one that ev by auto
  have b: "length (?F E) \<le> 1" using one by auto
  have led: "lastTriggerTimes st' i
            = (if \<exists>e \<in> set E. stringId e = i then Some (now fr) else lastTriggerTimes st i)"
    unfolding ev using one by auto
  have out: "out = Rescheduled \<and> DEBOUNCE_MS < now fr - lastTime_of (lastTriggerTimes st) i"
    if "\<exists>e \<in> set E. stringId e = i"
    using one that ev by auto
  have nxt: "\<forall>e \<in> set (fst (snd (tick next_fr st'))). stringId e \<noteq> i"
    if f: "\<exists>e \<in> set E. stringId e = i" and g: "now next_fr - now fr \<le> DEBOUNCE_MS"
  proof -
    from f led have "lastTime_of (lastTriggerTimes st') i = now fr"
      by (simp add: lastTime_of_def)
    with g have w: "\<not> DEBOUNCE_MS < now next_fr - lastTime_of (lastTriggerTimes st') i" by simp
    have "tick next_fr st' = (fst (tick next_fr st'), fst (snd (tick next_fr st')),
                              snd (snd (tick next_fr st')))" by simp
    from tick_id [OF this, of i] w
    have "filter (\<lambda>e. stringId e = i) (fst (snd (tick next_fr st'))) = []" by auto
    then show ?thesis by (simp add: filter_empty_conv)
  qed
  have run: "successively (\<lambda>a b. DEBOUNCE_MS < time b - time a)
            (?F (E @ fst (snd (frame_loop frs st'))))"
  proof -
    have "frame_loop frs st' = (fst (frame_loop frs st'), fst (snd (frame_loop frs st')),
                                snd (snd (frame_loop frs st')))" by simp
    note l = loop_id [OF this, of i]
    let ?E2 = "fst (snd (frame_loop frs st'))"
    show ?thesis
    proof (cases "?F E = []")
      case True
      with l show ?thesis by simp
    next
      case False
      with one obtain y where F1: "?F E = [\<lparr> stringId = i, time = now fr, yPosNormalized = y \<rparr>]"
        and l1: "lastTriggerTimes st' i = Some (now fr)" by auto
      from l1 have lt: "lastTime_of (lastTriggerTimes st') i = now fr"
        by (simp add: lastTime_of_def)
      show ?thesis
      proof (cases "?F ?E2")
        case Nil
        with F1 show ?thesis by simp
      next
        case (Cons e es)
        with l lt have "DEBOUNCE_MS < time e - now fr"
          "successively (\<lambda>a b. DEBOUNCE_MS < time b - time a) (e # es)" by auto
        with F1 Cons show ?thesis by simp
      qed
    qed
  qed
  have two: "out = Rescheduled \<and>
            filter (\<lambda>e. stringId e = sid str) E
              = [\<lparr> stringId = sid str, time = now fr, yPosNormalized = ly tipA \<rparr>] \<and>
            lastTriggerTimes st' (sid str) = Some (now fr)"
    if h: "canvas fr = Some (w, h)" "videoEl fr = Some video" "context2d fr"
      "cameraActiveRef st" "readyState video \<ge> 2" "handLandmarker (visionService st)"
      "currentTime video \<noteq> lastVideoTime (visionService st)"
      "detectForVideo fr = Inr [handA, handB]"
      "landmark_at handA 8 = Some tipA" "landmark_at handB 8 = Some tipB"
      and d: "distinct (map sid (strings fr))" and s: "str \<in> set (strings fr)"
      and c0: "crossing (prevFingerX st) (prevFingerVisible st) str
            (0, \<lparr> fx = 1 - lx tipA, fy = ly tipA, visible = True \<rparr>)"
      and t: "now fr - lastTime_of (lastTriggerTimes st) (sid str) > DEBOUNCE_MS"
  proof -
    note det = two_hands_detected [OF h assms]
    from c [OF det(1) d s det(2) c0 t]
    have f: "filter (\<lambda>e. stringId e = sid str) E
              = [\<lparr> stringId = sid str, time = now fr, yPosNormalized = ly tipA \<rparr>]" by simp
    then have "filter (\<lambda>e. stringId e = sid str) E \<noteq> []" by simp
    with tick_id [OF assms, of "sid str"] have "lastTriggerTimes st' (sid str) = Some (now fr)"
      by auto
    with det(1) f show ?thesis by simp
  qed
  from a b c [of f0 f1] led out nxt run two show ?thesis by blast
qed

theorem debounce_per_string_witness:
  "fst (tick (frame_of 1 (Inr [hand_at 0.55 0.3, hand_at 0.45 0.4]) 1016
                (generateStringConfigs 1 MID))
          (snd (snd (tick (frame_of 0 (Inr [hand_at 0.4 0.3, hand_at 0.6 0.4]) 1000
                             (generateStringConfigs 1 MID)) ready_Stage)))) = Rescheduled
   \<and> filter (\<lambda>e. stringId e = 0)
     (fst (snd (tick (frame_of 1 (Inr [hand_at 0.55 0.3, hand_at 0.45 0.4]) 1016
                        (generateStringConfigs 1 MID))
                (snd (snd (tick (frame_of 0 (Inr [hand_at 0.4 0.3, hand_at 0.6 0.4]) 1000
                                    (generateStringConfigs 1 MID)) ready_Stage))))))
     = [\<lparr> stringId = 0, time = 1016, yPosNormalized = 0.3 \<rparr>]
   \<and> lastTriggerTimes
       (snd (snd (tick (frame_of 1 (Inr [hand_at 0.55 0.3, hand_at 0.45 0.4]) 1016
                        (generateStringConfigs 1 MID))
                (snd (snd (tick (frame_of 0 (Inr [hand_at 0.4 0.3, hand_at 0.6 0.4]) 1000
                                    (generateStringConfigs 1 MID)) ready_Stage)))))) 0
     = Some 1016
   \<and> filter (\<lambda>e. stringId e = 0)
       (fst (snd (tick (frame_of 2 (Inr [hand_at 0.45 0.3, hand_at 0.55 0.4]) 1032
                        (generateStringConfigs 1 MID))
        (snd (snd (tick (frame_of 1 (Inr [hand_at 0.55 0.3, hand_at 0.45 0.4]) 1016
                        (generateStringConfigs 1 MID))
                (snd (snd (tick (frame_of 0 (Inr [hand_at 0.4 0.3, hand_at 0.6 0.4]) 1000
                                    (generateStringConfigs 1 MID)) ready_Stage))))))))) = []"
proof -
  let ?strs = "generateStringConfigs 1 MID"
  let ?str = "\<lparr> sid = 0, note = ''C4'', color = ''#FF595E'', xPos = 1 / 2 \<rparr>"
  let ?fA = "frame_of 0 (Inr [hand_at 0.4 0.3, hand_at 0.6 0.4]) 1000 ?strs"
  let ?fB = "frame_of 1 (Inr [hand_at 0.55 0.3, hand_at 0.45 0.4]) 1016 ?strs"
  let ?fC = "frame_of 2 (Inr [hand_at 0.45 0.3, hand_at 0.55 0.4]) 1032 ?strs"
  let ?tip0 = "\<lparr> lx = 1 - 0.55, ly = 0.3 \<rparr>"
  let ?tip1 = "\<lparr> lx = 1 - 0.45, ly = 0.4 \<rparr>"
  let ?video = "\<lparr> currentTime = 1, readyState = 4 \<rparr>"
  define stA where "stA = snd (snd (tick ?fA ready_Stage))"
  define stB where "stB = snd (snd (tick ?fB stA))"
  have A: "prevFingerX stA 0 = Some 0.4" "prevFingerX stA 1 = Some 0.6"
    "prevFingerVisible stA 0" "prevFingerVisible stA 1" "lastTriggerTimes stA 0 = None"
    "cameraActiveRef stA" "handLandmarker (visionService stA)"
    "lastVideoTime (visionService stA) = 0"
    by (simp_all add: stA_def one_string eval_defs)
  have tB: "tick ?fB stA = (fst (tick ?fB stA), fst (snd (tick ?fB stA)), stB)"
    by (simp add: stB_def)
  have f: "canvas ?fB = Some (1000, 800)" "videoEl ?fB = Some ?video" "context2d ?fB"
    "detectForVideo ?fB = Inr [hand_at 0.55 0.3, hand_at 0.45 0.4]"
    "strings ?fB = [?str]" "now ?fB = 1016" "now ?fC = 1032"
    by (simp_all add: frame_of_def one_string)
  have h: "landmark_at (hand_at 0.55 0.3) 8 = Some ?tip0"
    "landmark_at (hand_at 0.45 0.4) 8 = Some ?tip1"
    by (simp_all add: landmark_at_def hand_at_def)
  have c: "crossing (prevFingerX stA) (prevFingerVisible stA) ?str
             (0, \<lparr> fx = 1 - lx ?tip0, fy = ly ?tip0, visible = True \<rparr>)"
    "crossing (prevFingerX stA) (prevFingerVisible stA) ?str
             (1, \<lparr> fx = 1 - lx ?tip1, fy = ly ?tip1, visible = True \<rparr>)"
    using A by (simp_all add: crossing_def)
  note inst = debounce_per_string [OF tB, where i = 0 and str = "?str" and next_fr = "?fC"
      and w = 1000 and h = 800 and video = "?video"
      and handA = "hand_at 0.55 0.3" and handB = "hand_at 0.45 0.4"
      and tipA = "?tip0" and tipB = "?tip1"]
  note part6 = inst [THEN conjunct2, THEN conjunct2, THEN conjunct2, THEN conjunct2,
                     THEN conjunct2, THEN conjunct1]
  note part8 = inst [THEN conjunct2, THEN conjunct2, THEN conjunct2, THEN conjunct2,
                     THEN conjunct2, THEN conjunct2, THEN conjunct2]
  have "fst (tick ?fB stA) = Rescheduled \<and>
        filter (\<lambda>e. stringId e = sid ?str) (fst (snd (tick ?fB stA)))
          = [\<lparr> stringId = sid ?str, time = now ?fB, yPosNormalized = ly ?tip0 \<rparr>] \<and>
        lastTriggerTimes stB (sid ?str) = Some (now ?fB)"
    by (rule mp [OF part8]) (use A f h c in \<open>simp add: lastTime_of_def DEBOUNCE_MS_def\<close>)
  then have two: "fst (tick ?fB stA) = Rescheduled"
    "filter (\<lambda>e. stringId e = 0) (fst (snd (tick ?fB stA)))
       = [\<lparr> stringId = 0, time = 1016, yPosNormalized = 0.3 \<rparr>]"
    "lastTriggerTimes stB 0 = Some 1016"
    using f(6) by simp_all
  have ex: "\<exists>e \<in> set (fst (snd (tick ?fB stA))). stringId e = 0"
  proof -
    have "\<lparr> stringId = 0, time = 1016, yPosNormalized = 0.3 \<rparr>
            \<in> set (filter (\<lambda>e. stringId e = 0) (fst (snd (tick ?fB stA))))"
      unfolding two(2) by simp
    then have "\<lparr> stringId = 0, time = 1016, yPosNormalized = 0.3 \<rparr>
            \<in> set (fst (snd (tick ?fB stA)))" by simp
    then show ?thesis by (rule bexI [rotated]) simp
  qed
  have "\<forall>e \<in> set (fst (snd (tick ?fC stB))). stringId e \<noteq> 0"
    by (rule mp [OF part6]) (use ex f in \<open>simp add: DEBOUNCE_MS_def\<close>)
  then have none: "filter (\<lambda>e. stringId e = 0) (fst (snd (tick ?fC stB))) = []"
    by (simp add: filter_empty_conv)
  from two none show ?thesis unfolding stB_def stA_def by blast
qed

section \<open>The bend of a string\<close>

lemma bend_bound:
  fixes d w :: real
  assumes "0 \<le> w" and "\<bar>d\<bar> < 0.08"
  shows "\<bar>d * w * (1 - \<bar>d\<bar> / 0.08) * 0.8\<bar> \<le> 0.016 * w"
proof -
  define a where "a = \<bar>d\<bar>"
  have a: "0 \<le> a" "a < 0.08" using assms by (simp_all add: a_def)
  have "0 \<le> (a - 0.04)\<^sup>2" by simp
  then have q: "a * (0.08 - a) \<le> 0.0016"
    by (simp add: power2_eq_square algebra_simps)
  have "\<bar>d * w * (1 - \<bar>d\<bar> / 0.08) * 0.8\<bar> = a * w * (1 - a / 0.08) * 0.8"
    using a assms by (simp add: abs_mult a_def)
  also have "\<dots> = (a * (0.08 - a)) * (10 * w)"
    by (simp add: algebra_simps)
  also have "\<dots> \<le> 0.0016 * (10 * w)"
    using q assms by (intro mult_right_mono) simp_all
  finally show ?thesis by simp
qed

lemma closestBend_single:
  "closestBend_of w str ph [f] =
     (if visible f \<and> \<bar>fx f - xPos str\<bar> < reachThreshold \<and> vibration ph < 0.1
      then (fx f - xPos str) * w * (1 - \<bar>fx f - xPos str\<bar> / reachThreshold) * 0.8
      else 0)"
  by (simp add: closestBend_of_def closest_step_def Let_def)

text \<open>
  Claim C4, as amended. For a string below the activity floor and a visible finger: at
  distance 0 the pull factor is 1 but the candidate bend is 0, so the finger does not
  change \<open>closestBend\<close> and, alone, leaves the bend to decay by 0.8; at distance
  \<open>reachThreshold\<close> or more the finger contributes nothing; the magnitude of the bend
  never exceeds \<open>0.016 * width\<close>, and reaches it at half the reach threshold.
\<close>

theorem bend_profile:
  assumes "vibration ph < 0.1" and "visible f" and "0 \<le> w"
  shows "(fx f = xPos str \<longrightarrow> closest_step w str ph c f = c \<and> closestBend_of w str ph [f] = 0)
       \<and> (\<bar>fx f - xPos str\<bar> \<ge> reachThreshold \<longrightarrow> closest_step w str ph c f = c)
       \<and> \<bar>closestBend_of w str ph [f]\<bar> \<le> 0.016 * w
       \<and> (\<bar>fx f - xPos str\<bar> = reachThreshold / 2 \<longrightarrow> \<bar>closestBend_of w str ph [f]\<bar> = 0.016 * w)
       \<and> (fx f = xPos str \<longrightarrow> bend (bent w str [f] ph) = bend ph * 0.8)"
proof -
  have zero: "closest_step w str ph c f = c \<and> closestBend_of w str ph [f] = 0"
    if "fx f = xPos str"
    using that by (simp add: closest_step_def closestBend_single Let_def)
  have far: "closest_step w str ph c f = c" if "\<bar>fx f - xPos str\<bar> \<ge> reachThreshold"
    using that by (simp add: closest_step_def Let_def)
  have bound: "\<bar>closestBend_of w str ph [f]\<bar> \<le> 0.016 * w"
  proof (cases "\<bar>fx f - xPos str\<bar> < 0.08")
    case True
    from bend_bound [OF assms(3) True] assms True show ?thesis
      by (simp add: closestBend_single reachThreshold_def)
  next
    case False
    with assms show ?thesis
      by (simp add: closestBend_single reachThreshold_def)
  qed
  have peak: "\<bar>closestBend_of w str ph [f]\<bar> = 0.016 * w"
    if "\<bar>fx f - xPos str\<bar> = reachThreshold / 2"
  proof -
    from that have d: "\<bar>fx f - xPos str\<bar> = 0.04" by (simp add: reachThreshold_def)
    have "\<bar>(fx f - xPos str) * w * (1 - \<bar>fx f - xPos str\<bar> / 0.08) * 0.8\<bar>
          = \<bar>fx f - xPos str\<bar> * w * (1 - \<bar>fx f - xPos str\<bar> / 0.08) * 0.8"
      using assms(3) d by (simp add: abs_mult)
    also have "\<dots> = 0.016 * w" by (simp add: d)
    finally show ?thesis
      using d assms by (simp add: closestBend_single reachThreshold_def)
  qed
  have rest: "bend (bent w str [f] ph) = bend ph * 0.8" if "fx f = xPos str"
    using zero [OF that] by (simp add: bent_def)
  from zero far bound peak rest show ?thesis by blast
qed


theorem bend_profile_witness:
  "closestBend_of 1000 (hd (generateStringConfigs 1 MID)) \<lparr> vibration = 0, bend = 0 \<rparr>
      [\<lparr> fx = 1 / 2, fy = 0.3, visible = True \<rparr>] = 0
   \<and> \<bar>closestBend_of 1000 (hd (generateStringConfigs 1 MID)) \<lparr> vibration = 0, bend = 0 \<rparr>
      [\<lparr> fx = 0.54, fy = 0.3, visible = True \<rparr>]\<bar> = 16"
  using bend_profile [of "\<lparr> vibration = 0, bend = 0 \<rparr>" "\<lparr> fx = 1 / 2, fy = 0.3, visible = True \<rparr>"
                         1000 "hd (generateStringConfigs 1 MID)"]
        bend_profile [of "\<lparr> vibration = 0, bend = 0 \<rparr>" "\<lparr> fx = 0.54, fy = 0.3, visible = True \<rparr>"
                         1000 "hd (generateStringConfigs 1 MID)"]
  by (simp add: one_string reachThreshold_def)

text \<open>
  Claim C4 as stated fails: on a canvas 1000 wide, a finger exactly on the string at
  0.5 gives a smaller bend (none) than a finger at 0.54 (16 pixels).
\<close>

theorem bend_at_string_counterexample:
  "\<bar>closestBend_of 1000 (hd (generateStringConfigs 1 MID)) \<lparr> vibration = 0, bend = 0 \<rparr>
      [\<lparr> fx = 1 / 2, fy = 0.3, visible = True \<rparr>]\<bar>
   < \<bar>closestBend_of 1000 (hd (generateStringConfigs 1 MID)) \<lparr> vibration = 0, bend = 0 \<rparr>
      [\<lparr> fx = 0.54, fy = 0.3, visible = True \<rparr>]\<bar>
   \<and> fst (string_step 1000 2000 (\<lambda>_. None) (\<lambda>_. False) [\<lparr> fx = 1 / 2, fy = 0.3, visible = True \<rparr>]
           (Map.empty, Map.empty, []) (hd (generateStringConfigs 1 MID))) 0
       = Some \<lparr> vibration = 0, bend = 0 \<rparr>
   \<and> fst (string_step 1000 2000 (\<lambda>_. None) (\<lambda>_. False) [\<lparr> fx = 0.54, fy = 0.3, visible = True \<rparr>]
           (Map.empty, Map.empty, []) (hd (generateStringConfigs 1 MID))) 0
       = Some \<lparr> vibration = 0, bend = 16 \<rparr>"
  by (simp add: one_string string_step_eq crossing_def entry_def bent_def closestBend_single
        reachThreshold_def)

section \<open>Vibration stays between 0 and 1\<close>

lemma render_step_eq:
  "render_step P str = (case P (sid str) of None \<Rightarrow> P | Some ph \<Rightarrow> P(sid str \<mapsto> decay_phys ph))"
  by (auto simp: render_step_def decay_phys_def decay_def split: option.splits)

lemma render_Nil [simp]: "renderStringsAndEffects P [] = P"
  by (simp add: renderStringsAndEffects_def)

lemma render_Cons [simp]:
  "renderStringsAndEffects P (str # strs) = renderStringsAndEffects (render_step P str) strs"
  by (simp add: renderStringsAndEffects_def)

lemma render_distinct:
  "distinct (map sid strs) \<Longrightarrow>
   renderStringsAndEffects P strs i =
     (if i \<in> sid ` set strs then map_option decay_phys (P i) else P i)"
proof (induction strs arbitrary: P)
  case Nil
  then show ?case by simp
next
  case (Cons str strs)
  then have d: "distinct (map sid strs)" and fresh: "sid str \<notin> sid ` set strs" by simp_all
  show ?case
  proof (cases "i = sid str")
    case True
    with fresh Cons.IH [OF d, of "render_step P str"] show ?thesis
      by (simp add: render_step_eq split: option.splits)
  next
    case False
    with Cons.IH [OF d, of "render_step P str"] show ?thesis
      by (simp add: render_step_eq split: option.splits)
  qed
qed

lemma vibration_bounded_upd:
  "vibration_bounded P \<Longrightarrow> 0 \<le> vibration ph \<Longrightarrow> vibration ph \<le> 1 \<Longrightarrow>
   vibration_bounded (P(i \<mapsto> ph))"
  by (simp add: vibration_bounded_def)

lemma vibration_bent [simp]: "vibration (bent w str fingers ph) = vibration ph"
  by (simp add: bent_def Let_def)

lemma bend_decay_phys [simp]: "bend (decay_phys ph) = bend ph"
  by (simp add: decay_phys_def)

lemma vibration_decay_phys [simp]: "vibration (decay_phys ph) = decay (vibration ph)"
  by (simp add: decay_phys_def)

lemma vibration_entry:
  "vibration_bounded P \<Longrightarrow> 0 \<le> vibration (entry P i) \<and> vibration (entry P i) \<le> 1"
  by (auto simp: vibration_bounded_def entry_def split: option.splits)

lemma string_step_bounded:
  assumes "vibration_bounded P" and "string_step w t pX pV fingers (P, L, E) str = (P', L', E')"
  shows "vibration_bounded P'"
proof (cases "fires t pX pV fingers L str")
  case None
  with assms(2) have "P' = P(sid str \<mapsto> bent w str fingers (entry P (sid str)))"
    by (simp add: string_step_fires)
  with assms(1) vibration_entry [OF assms(1), of "sid str"] show ?thesis
    by (simp add: vibration_bounded_upd)
next
  case (Some slot)
  with assms(2) have "P' = P(sid str \<mapsto> plucked)"
    by (simp add: string_step_fires)
  with assms(1) show ?thesis
    by (simp add: vibration_bounded_upd plucked_def)
qed

lemma strings_pass_bounded:
  "vibration_bounded P \<Longrightarrow> strings_pass w t pX pV fingers (P, L, E) strs = (P', L', E') \<Longrightarrow>
   vibration_bounded P'"
proof (induction strs arbitrary: P L E)
  case Nil
  then show ?case by simp
next
  case (Cons str strs)
  obtain P1 L1 E1 where st: "string_step w t pX pV fingers (P, L, E) str = (P1, L1, E1)"
    by (metis prod_cases3)
  from string_step_bounded [OF Cons.prems(1) st] have "vibration_bounded P1" .
  from Cons.IH [OF this] Cons.prems(2) st show ?case by simp
qed

lemma decay_bounds: "0 \<le> v \<Longrightarrow> v \<le> 1 \<Longrightarrow> 0 \<le> decay v \<and> decay v \<le> 1"
  by (simp add: decay_def)

lemma render_step_bounded: "vibration_bounded P \<Longrightarrow> vibration_bounded (render_step P str)"
proof (cases "P (sid str)")
  case None
  assume "vibration_bounded P"
  with None show ?thesis by (simp add: render_step_eq)
next
  case (Some ph)
  assume b: "vibration_bounded P"
  with Some have "0 \<le> vibration ph" "vibration ph \<le> 1" by (auto simp: vibration_bounded_def)
  then have "0 \<le> vibration (decay_phys ph) \<and> vibration (decay_phys ph) \<le> 1"
    by (simp add: decay_bounds)
  with b Some show ?thesis by (simp add: render_step_eq vibration_bounded_upd)
qed

lemma render_bounded:
  "vibration_bounded P \<Longrightarrow> vibration_bounded (renderStringsAndEffects P strs)"
  by (induction strs arbitrary: P) (simp_all add: render_step_bounded)

lemma tick_bounded:
  assumes "vibration_bounded (stringPhysics st)" and "tick fr st = (out, E, st')"
  shows "vibration_bounded (stringPhysics st')"
  using assms(2)
proof (cases rule: tick_cases)
  case stopped
  with assms(1) show ?thesis by simp
next
  case (ran w h v u st1 P L)
  from strings_pass_bounded [OF assms(1) ran(5)] have "vibration_bounded P" .
  then show ?thesis using ran(7) by (simp add: render_bounded)
qed

lemma frame_loop_bounded:
  "vibration_bounded (stringPhysics st) \<Longrightarrow> frame_loop frs st = (out, E, st') \<Longrightarrow>
   vibration_bounded (stringPhysics st')"
proof (induction frs arbitrary: st out E st')
  case Nil
  then show ?case by simp
next
  case (Cons fr frs)
  obtain o1 E1 st1 where t: "tick fr st = (o1, E1, st1)" by (metis prod_cases3)
  from tick_bounded [OF Cons.prems(1) t] have b1: "vibration_bounded (stringPhysics st1)" .
  show ?case
  proof (cases "o1 = Rescheduled")
    case True
    obtain o2 E2 st2 where l: "frame_loop frs st1 = (o2, E2, st2)" by (metis prod_cases3)
    with Cons.prems(2) t True have "st' = st2" by simp
    with Cons.IH [OF b1 l] show ?thesis by simp
  next
    case False
    with Cons.prems(2) t have "st' = st1" by (cases o1) simp_all
    with b1 show ?thesis by simp
  qed
qed

text \<open>
  Claim C10. The physics state of a new stage has every vibration in \<open>[0, 1]\<close>, and a
  tick, the camera effect and any run of the frame loop keep it so.
\<close>

theorem vibration_in_unit_interval:
  "vibration_bounded (stringPhysics (new_Stage vs))
   \<and> (vibration_bounded (stringPhysics st) \<longrightarrow>
        vibration_bounded (stringPhysics (snd (snd (tick fr st)))) \<and>
        vibration_bounded (stringPhysics (cameraActive_effect b st)) \<and>
        vibration_bounded (stringPhysics (snd (snd (frame_loop frs st)))))"
proof -
  have "vibration_bounded (stringPhysics (new_Stage vs))"
    by (simp add: new_Stage_def vibration_bounded_def)
  moreover have "vibration_bounded (stringPhysics (snd (snd (tick fr st))))"
    if "vibration_bounded (stringPhysics st)"
    using tick_bounded [OF that, of fr "fst (tick fr st)" "fst (snd (tick fr st))"] by simp
  moreover have "vibration_bounded (stringPhysics (cameraActive_effect b st))"
    if "vibration_bounded (stringPhysics st)"
    using that by (simp add: cameraActive_effect_def Let_def)
  moreover have "vibration_bounded (stringPhysics (snd (snd (frame_loop frs st))))"
    if "vibration_bounded (stringPhysics st)"
    using frame_loop_bounded [OF that, of frs "fst (frame_loop frs st)" "fst (snd (frame_loop frs st))"]
    by simp
  ultimately show ?thesis by blast
qed

theorem vibration_in_unit_interval_witness:
  "vibration_bounded (stringPhysics ready_Stage)
   \<and> vibration_bounded (stringPhysics (snd (snd (frame_loop
        [frame_of 0 (Inr [hand_at 0.4 0.3, hand_at 0.6 0.4]) 1000 (generateStringConfigs 1 MID),
         frame_of 1 (Inr [hand_at 0.55 0.3, hand_at 0.45 0.4]) 1016 (generateStringConfigs 1 MID)]
        ready_Stage))))
   \<and> stringPhysics (snd (snd (frame_loop
        [frame_of 0 (Inr [hand_at 0.4 0.3, hand_at 0.6 0.4]) 1000 (generateStringConfigs 1 MID),
         frame_of 1 (Inr [hand_at 0.55 0.3, hand_at 0.45 0.4]) 1016 (generateStringConfigs 1 MID)]
        ready_Stage))) 0 = Some \<lparr> vibration = 0.92, bend = 0 \<rparr>"
proof -
  have b: "vibration_bounded (stringPhysics ready_Stage)"
    by (simp add: ready_Stage_def cameraActive_effect_def new_Stage_def vibration_bounded_def)
  have v: "stringPhysics (snd (snd (frame_loop
        [frame_of 0 (Inr [hand_at 0.4 0.3, hand_at 0.6 0.4]) 1000 (generateStringConfigs 1 MID),
         frame_of 1 (Inr [hand_at 0.55 0.3, hand_at 0.45 0.4]) 1016 (generateStringConfigs 1 MID)]
        ready_Stage))) 0 = Some \<lparr> vibration = 0.92, bend = 0 \<rparr>"
    by (simp add: one_string eval_defs)
  from vibration_in_unit_interval [of "initialize new_VisionService" ready_Stage
        "frame_of 0 (Inr []) 0 []" True
        "[frame_of 0 (Inr [hand_at 0.4 0.3, hand_at 0.6 0.4]) 1000 (generateStringConfigs 1 MID),
         frame_of 1 (Inr [hand_at 0.55 0.3, hand_at 0.45 0.4]) 1016 (generateStringConfigs 1 MID)]"]
       b v
  show ?thesis by blast
qed

section \<open>Decay of the vibration after a pluck\<close>

lemma pow92_55: "(0.01::real) < 0.92 ^ 55" by (simp add: power_divide)
lemma pow92_56: "(0.92::real) ^ 56 \<le> 0.01" by (simp add: power_divide)
lemma pow92_27: "(0.1::real) \<le> 0.92 ^ 27" by (simp add: power_divide)
lemma pow92_28: "(0.92::real) ^ 28 < 0.1" by (simp add: power_divide)

lemma decay_pow:
  fixes q :: real
  assumes q: "q = 0.92" and j: "j \<le> 56"
  shows "decay (q ^ j) = (if j \<le> 55 then q ^ Suc j else q ^ j)"
proof (cases "j \<le> 55")
  case True
  have "q ^ 55 \<le> q ^ j" using True q by (intro power_decreasing) simp_all
  moreover have "0.01 < q ^ 55" unfolding q by (rule pow92_55)
  ultimately have "0.01 < q ^ j" by linarith
  then have "decay (q ^ j) = q ^ j * 0.92" by (simp add: decay_def)
  also have "\<dots> = q ^ Suc j" unfolding q by simp
  finally show ?thesis using True by simp
next
  case False
  with j have "j = 56" by simp
  moreover have "q ^ 56 \<le> 0.01" unfolding q by (rule pow92_56)
  ultimately have "decay (q ^ j) = q ^ j" by (simp add: decay_def)
  with False show ?thesis by simp
qed

lemma decay_iter:
  fixes q :: real
  assumes q: "q = 0.92"
  shows "j \<le> 56 \<Longrightarrow> (decay ^^ k) (q ^ j) = q ^ min (j + k) 56"
proof (induction k arbitrary: j)
  case 0
  then show ?case by simp
next
  case (Suc k)
  have "(decay ^^ Suc k) (q ^ j) = (decay ^^ k) (decay (q ^ j))"
    by (simp add: funpow_swap1)
  also have "\<dots> = q ^ min (j + Suc k) 56"
  proof (cases "j \<le> 55")
    case True
    then have "decay (q ^ j) = q ^ Suc j" using decay_pow [OF q Suc.prems] by simp
    moreover from True have "Suc j \<le> 56" by simp
    ultimately show ?thesis using Suc.IH [of "Suc j"] by simp
  next
    case False
    with Suc.prems have j56: "j = 56" by simp
    then have "decay (q ^ j) = q ^ j" using decay_pow [OF q Suc.prems] by simp
    then show ?thesis using Suc.IH [OF Suc.prems] j56 by simp
  qed
  finally show ?case .
qed

lemma decay_after_pluck: "(decay ^^ k) 0.92 = 0.92 ^ min (Suc k) 56"
  using decay_iter [OF refl, of 1 k] by simp

lemma eligible_iff: "((0.92::real) ^ min k 56 < 0.1) = (28 \<le> k)"
proof -
  define q :: real where "q = 0.92"
  have "(q ^ min k 56 < 0.1) = (28 \<le> k)"
  proof (cases "28 \<le> k")
    case True
    then have "q ^ min k 56 \<le> q ^ 28"
      by (intro power_decreasing) (simp_all add: q_def)
    moreover have "q ^ 28 < 0.1" unfolding q_def by (rule pow92_28)
    ultimately have "q ^ min k 56 < 0.1" by linarith
    with True show ?thesis by simp
  next
    case False
    then have "q ^ 27 \<le> q ^ min k 56"
      by (intro power_decreasing) (simp_all add: q_def)
    moreover have "0.1 \<le> q ^ 27" unfolding q_def by (rule pow92_27)
    ultimately have "\<not> q ^ min k 56 < 0.1" by linarith
    with False show ?thesis by simp
  qed
  then show ?thesis unfolding q_def .
qed

lemma frame_loop_Cons_Rescheduled:
  assumes "frame_loop (fr # frs) st = (Rescheduled, E, st')"
  obtains E1 E2 st1 where "tick fr st = (Rescheduled, E1, st1)"
    "frame_loop frs st1 = (Rescheduled, E2, st')" "E = E1 @ E2"
proof -
  obtain o1 E1 st1 where t: "tick fr st = (o1, E1, st1)" by (metis prod_cases3)
  obtain o2 E2 st2 where l: "frame_loop frs st1 = (o2, E2, st2)" by (metis prod_cases3)
  from assms t have o1: "o1 = Rescheduled" by (cases o1) simp_all
  with assms t l have "o2 = Rescheduled" "E = E1 @ E2" "st' = st2" by simp_all
  with t l o1 that show thesis by simp
qed

lemma plucks_in_concat:
  "e \<in> set (concat (map (plucks_of t pX pV fingers L) strs)) \<Longrightarrow>
   \<exists>s \<in> set strs. stringId e = sid s \<and> fires t pX pV fingers L s \<noteq> None"
proof (induction strs)
  case Nil
  then show ?case by simp
next
  case (Cons a strs)
  show ?case
  proof (cases "e \<in> set (plucks_of t pX pV fingers L a)")
    case True
    then have "stringId e = sid a \<and> fires t pX pV fingers L a \<noteq> None"
      by (cases "fires t pX pV fingers L a") (auto simp: plucks_of_def)
    then show ?thesis by auto
  next
    case False
    with Cons.prems have "e \<in> set (concat (map (plucks_of t pX pV fingers L) strs))" by simp
    from Cons.IH [OF this] show ?thesis by auto
  qed
qed

lemma sid_inj_on_distinct:
  "distinct (map sid strs) \<Longrightarrow> s \<in> set strs \<Longrightarrow> s' \<in> set strs \<Longrightarrow> sid s = sid s' \<Longrightarrow> s = s'"
  by (meson distinct_map inj_onD)

text \<open>What one completed tick does to the entry of a string it renders.\<close>

lemma tick_entry:
  assumes t: "tick fr st = (Rescheduled, E, st')"
    and d: "distinct (map sid (strings fr))" and s: "str \<in> set (strings fr)"
  shows "\<exists>w h. canvas fr = Some (w, h) \<and>
           stringPhysics st' (sid str) =
             Some (if \<exists>e \<in> set E. stringId e = sid str
                   then decay_phys plucked
                   else decay_phys (bent w str (fingerPositions (lastLandmarksRef st'))
                                      (entry (stringPhysics st) (sid str))))"
  using t
proof (cases rule: tick_cases)
  case stopped
  then show ?thesis by simp
next
  case (ran w h v u st1 P L)
  let ?fs = "fingerPositions (lastLandmarksRef st1)"
  let ?f = "fires (now fr) (prevFingerX st) (prevFingerVisible st) ?fs (lastTriggerTimes st)"
  note pd = pass_distinct [OF d ran(5)]
  have cache: "lastLandmarksRef st' = lastLandmarksRef st1" using ran(7) by simp
  have ev: "(\<exists>e \<in> set E. stringId e = sid str) = (?f str \<noteq> None)"
  proof
    assume "\<exists>e \<in> set E. stringId e = sid str"
    then obtain e where e: "e \<in> set E" "stringId e = sid str" by blast
    with pd have "e \<in> set (concat (map (plucks_of (now fr) (prevFingerX st)
                     (prevFingerVisible st) ?fs (lastTriggerTimes st)) (strings fr)))" by simp
    from plucks_in_concat [OF this] obtain s' where
      s': "s' \<in> set (strings fr)" "stringId e = sid s'" "?f s' \<noteq> None" by blast
    from e(2) s'(2) have "sid str = sid s'" by simp
    from sid_inj_on_distinct [OF d s s'(1) this] have "str = s'" .
    with s'(3) show "?f str \<noteq> None" by blast
  next
    assume "?f str \<noteq> None"
    then have "plucks_of (now fr) (prevFingerX st) (prevFingerVisible st) ?fs
                 (lastTriggerTimes st) str \<noteq> []"
      by (auto simp: plucks_of_def)
    moreover have "filter (\<lambda>e. stringId e = sid str) E =
          plucks_of (now fr) (prevFingerX st) (prevFingerVisible st) ?fs
                 (lastTriggerTimes st) str"
      using pd filter_plucks_distinct [OF d s] by simp
    ultimately have "filter (\<lambda>e. stringId e = sid str) E \<noteq> []" by simp
    then show "\<exists>e \<in> set E. stringId e = sid str"
      by (auto simp: filter_empty_conv)
  qed
  from pd s have "P (sid str) = Some (case ?f str of
                             None \<Rightarrow> bent w str ?fs (entry (stringPhysics st) (sid str))
                           | Some slot \<Rightarrow> plucked)" by blast
  moreover have "stringPhysics st' (sid str) = map_option decay_phys (P (sid str))"
    using ran(7) s by (simp add: render_distinct [OF d])
  ultimately show ?thesis
    using ev ran(1) cache by (auto split: option.splits)
qed

lemma quiet_frames:
  "frame_loop frs st0 = (Rescheduled, E, st') \<Longrightarrow>
   \<forall>e \<in> set E. stringId e \<noteq> sid str \<Longrightarrow>
   \<forall>fr \<in> set frs. distinct (map sid (strings fr)) \<and> str \<in> set (strings fr) \<Longrightarrow>
   vibration (entry (stringPhysics st') (sid str))
     = (decay ^^ length frs) (vibration (entry (stringPhysics st0) (sid str)))"
proof (induction frs arbitrary: st0 E)
  case Nil
  then show ?case by simp
next
  case (Cons fr frs)
  from Cons.prems(1) obtain E1 E2 st1 where
    t: "tick fr st0 = (Rescheduled, E1, st1)" and
    l: "frame_loop frs st1 = (Rescheduled, E2, st')" and E: "E = E1 @ E2"
    by (rule frame_loop_Cons_Rescheduled)
  from Cons.prems(2) E have q1: "\<not> (\<exists>e \<in> set E1. stringId e = sid str)"
    and q2: "\<forall>e \<in> set E2. stringId e \<noteq> sid str" by auto
  from Cons.prems(3) have d: "distinct (map sid (strings fr))" and s: "str \<in> set (strings fr)"
    and rest: "\<forall>fr \<in> set frs. distinct (map sid (strings fr)) \<and> str \<in> set (strings fr)"
    by simp_all
  from tick_entry [OF t d s] q1
  have "vibration (entry (stringPhysics st1) (sid str))
        = decay (vibration (entry (stringPhysics st0) (sid str)))"
    by (auto simp: entry_def)
  with Cons.IH [OF l q2 rest] show ?case
    by (simp add: funpow_swap1)
qed

text \<open>
  Claim C3, as amended. After the tick that plucks a string, and \<open>n\<close> further completed
  ticks that do not trigger it, its vibration is \<open>0.92 ^ k\<close> for the \<open>k = n + 1\<close>
  rendered frames as long as \<open>k \<le> 56\<close>, and stays \<open>0.92 ^ 56\<close> from then on; a
  finger within reach bends the string again exactly from the 28th rendered frame on,
  when the vibration has fallen below 0.1.
\<close>

theorem vibration_decay_after_pluck:
  assumes "tick fr0 st = (Rescheduled, E0, st0)" and "\<exists>e \<in> set E0. stringId e = sid str"
    and "frame_loop frs st0 = (Rescheduled, E, st')" and "\<forall>e \<in> set E. stringId e \<noteq> sid str"
    and "\<forall>fr \<in> set (fr0 # frs). distinct (map sid (strings fr)) \<and> str \<in> set (strings fr)"
  shows "vibration (entry (stringPhysics st') (sid str)) = 0.92 ^ min (Suc (length frs)) 56
       \<and> (\<forall>w f. 0 < w \<and> visible f \<and> 0 < \<bar>fx f - xPos str\<bar> \<and> \<bar>fx f - xPos str\<bar> < reachThreshold \<longrightarrow>
            (closestBend_of w str (entry (stringPhysics st') (sid str)) [f] \<noteq> 0)
              = (28 \<le> Suc (length frs)))"
proof -
  from assms(5) have d: "distinct (map sid (strings fr0))" and s: "str \<in> set (strings fr0)"
    and rest: "\<forall>fr \<in> set frs. distinct (map sid (strings fr)) \<and> str \<in> set (strings fr)"
    by simp_all
  from tick_entry [OF assms(1) d s] assms(2)
  have "stringPhysics st0 (sid str) = Some (decay_phys plucked)" by auto
  then have "vibration (entry (stringPhysics st0) (sid str)) = decay 1"
    by (simp add: entry_def plucked_def)
  also have "\<dots> = 0.92" by (simp add: decay_def)
  finally have v0: "vibration (entry (stringPhysics st0) (sid str)) = 0.92" .
  have "vibration (entry (stringPhysics st') (sid str)) = (decay ^^ length frs) 0.92"
    using quiet_frames [OF assms(3,4) rest] v0 by simp
  then have v: "vibration (entry (stringPhysics st') (sid str)) = 0.92 ^ min (Suc (length frs)) 56"
    by (simp only: decay_after_pluck)
  have "(closestBend_of w str (entry (stringPhysics st') (sid str)) [f] \<noteq> 0)
              = (28 \<le> Suc (length frs))"
    if "0 < w" "visible f" "0 < \<bar>fx f - xPos str\<bar>" "\<bar>fx f - xPos str\<bar> < reachThreshold" for w f
  proof -
    from that have "(fx f - xPos str) * w * (1 - \<bar>fx f - xPos str\<bar> / reachThreshold) * 0.8 \<noteq> 0"
      by (auto simp: reachThreshold_def)
    with that have "(closestBend_of w str (entry (stringPhysics st') (sid str)) [f] \<noteq> 0)
         = (vibration (entry (stringPhysics st') (sid str)) < 0.1)"
      by (simp add: closestBend_single)
    also have "\<dots> = (28 \<le> Suc (length frs))"
      unfolding v by (rule eligible_iff)
    finally show ?thesis .
  qed
  with v show ?thesis by blast
qed

theorem vibration_decay_after_pluck_witness:
  "vibration (entry (stringPhysics (snd (snd (frame_loop
       [frame_of 2 (Inr [hand_at 0.45 0.3, hand_at 0.55 0.4]) 1032 (generateStringConfigs 1 MID),
        frame_of 3 (Inr []) 1048 (generateStringConfigs 1 MID)]
       (snd (snd (tick (frame_of 1 (Inr [hand_at 0.55 0.3, hand_at 0.45 0.4]) 1016
                          (generateStringConfigs 1 MID))
          (snd (snd (tick (frame_of 0 (Inr [hand_at 0.4 0.3, hand_at 0.6 0.4]) 1000
                             (generateStringConfigs 1 MID)) ready_Stage)))))))))) 0)
   = 0.92 ^ 3"
proof -
  let ?strs = "generateStringConfigs 1 MID"
  let ?str = "\<lparr> sid = 0, note = ''C4'', color = ''#FF595E'', xPos = 1 / 2 \<rparr>"
  let ?fA = "frame_of 0 (Inr [hand_at 0.4 0.3, hand_at 0.6 0.4]) 1000 ?strs"
  let ?fB = "frame_of 1 (Inr [hand_at 0.55 0.3, hand_at 0.45 0.4]) 1016 ?strs"
  let ?fC = "frame_of 2 (Inr [hand_at 0.45 0.3, hand_at 0.55 0.4]) 1032 ?strs"
  let ?fD = "frame_of 3 (Inr []) 1048 ?strs"
  define stA where "stA = snd (snd (tick ?fA ready_Stage))"
  define stB where "stB = snd (snd (tick ?fB stA))"
  have B: "fst (tick ?fB stA) = Rescheduled"
    "fst (snd (tick ?fB stA)) = [\<lparr> stringId = 0, time = 1016, yPosNormalized = 0.3 \<rparr>]"
    by (simp_all add: stA_def one_string eval_defs)
  have tB: "tick ?fB stA = (Rescheduled, [\<lparr> stringId = 0, time = 1016, yPosNormalized = 0.3 \<rparr>], stB)"
    using B by (simp add: stB_def prod_eq_iff)
  have L: "fst (frame_loop [?fC, ?fD] stB) = Rescheduled"
    "fst (snd (frame_loop [?fC, ?fD] stB)) = []"
    by (simp_all add: stB_def stA_def one_string eval_defs)
  have tL: "frame_loop [?fC, ?fD] stB = (Rescheduled, [], snd (snd (frame_loop [?fC, ?fD] stB)))"
    using L by (simp add: prod_eq_iff)
  have s: "\<forall>fr \<in> set (?fB # [?fC, ?fD]). distinct (map sid (strings fr)) \<and> ?str \<in> set (strings fr)"
    by (simp add: frame_of_def one_string)
  have e0: "\<exists>e \<in> set [\<lparr> stringId = 0, time = 1016, yPosNormalized = 0.3 \<rparr>]. stringId e = sid ?str"
    by simp
  have e1: "\<forall>e \<in> set []. stringId e \<noteq> sid ?str" by simp
  have m: "min (Suc (length [?fC, ?fD])) 56 = 3" by simp
  from vibration_decay_after_pluck [OF tB e0 tL e1 s, THEN conjunct1]
  show ?thesis unfolding m stB_def stA_def StringConfig.select_convs .
qed

lemma decay_phys_iter: "(decay_phys ^^ k) ph = ph\<lparr> vibration := (decay ^^ k) (vibration ph) \<rparr>"
  by (induction k) (simp_all add: decay_phys_def)

lemma render_single_iter:
  "((\<lambda>P. renderStringsAndEffects P [s]) ^^ k) (Q(sid s \<mapsto> ph)) = Q(sid s \<mapsto> (decay_phys ^^ k) ph)"
  by (induction k) (auto simp: render_step_eq fun_eq_iff)

text \<open>
  Claim C3 as stated fails. After a pluck, 57 rendered frames leave the vibration at
  \<open>0.92 ^ 56\<close>, not \<open>0.92 ^ 57\<close>; and after 28 rendered frames the vibration, still
  above 0.01, already lets a finger within reach bend the string.
\<close>

theorem vibration_threshold_counterexample:
  "((\<lambda>P. renderStringsAndEffects P (generateStringConfigs 1 MID)) ^^ 57) [0 \<mapsto> plucked] 0
     = Some \<lparr> vibration = 0.92 ^ 56, bend = 0 \<rparr>
   \<and> (0.92::real) ^ 56 \<noteq> 0.92 ^ 57
   \<and> ((\<lambda>P. renderStringsAndEffects P (generateStringConfigs 1 MID)) ^^ 28) [0 \<mapsto> plucked] 0
     = Some \<lparr> vibration = 0.92 ^ 28, bend = 0 \<rparr>
   \<and> (0.01::real) < 0.92 ^ 28
   \<and> closestBend_of 1000 (hd (generateStringConfigs 1 MID)) \<lparr> vibration = 0.92 ^ 28, bend = 0 \<rparr>
        [\<lparr> fx = 0.52, fy = 0.3, visible = True \<rparr>] = 12"
proof -
  let ?s = "\<lparr> sid = 0, note = ''C4'', color = ''#FF595E'', xPos = 1 / 2 \<rparr>"
  have it: "((\<lambda>P. renderStringsAndEffects P (generateStringConfigs 1 MID)) ^^ k) [0 \<mapsto> plucked] 0
        = Some \<lparr> vibration = (decay ^^ k) 1, bend = 0 \<rparr>" for k
    using render_single_iter [where s = ?s and k = k and Q = Map.empty and ph = plucked]
    by (simp add: one_string decay_phys_iter plucked_def)
  have d57: "(decay ^^ 57) 1 = (0.92::real) ^ 56"
    using decay_iter [OF refl, of 0 57] by simp
  have d28: "(decay ^^ 28) 1 = (0.92::real) ^ 28"
    using decay_iter [OF refl, of 0 28] by simp
  have ne: "(0.92::real) ^ 56 \<noteq> 0.92 ^ 57" by (simp add: power_divide)
  have gt: "(0.01::real) < 0.92 ^ 28" by (simp add: power_divide)
  have lt: "(0.92::real) ^ 28 < 0.1" by (rule pow92_28)
  have b: "closestBend_of 1000 (hd (generateStringConfigs 1 MID)) \<lparr> vibration = 0.92 ^ 28, bend = 0 \<rparr>
        [\<lparr> fx = 0.52, fy = 0.3, visible = True \<rparr>] = 12"
    using lt by (simp add: one_string closestBend_single reachThreshold_def)
  show ?thesis
    unfolding it d57 d28 using ne gt b by blast
qed

section \<open>Frames without hands\<close>

lemma tick_cases3 [consumes 1, case_names early threw ran]:
  assumes "tick fr st = (out, E, st')"
  obtains
    (early) "out = EarlyReturn" "E = []" "st' = st"
  | (threw) w h v e where "canvas fr = Some (w, h)" "videoEl fr = Some v" "context2d fr"
      "vision_detection fr v st = (Inl e, st')" "out = Threw e" "E = []"
  | (ran) w h v u st1 P L where
      "canvas fr = Some (w, h)" "videoEl fr = Some v" "context2d fr"
      "vision_detection fr v st = (Inr u, st1)"
      "strings_pass w (now fr) (prevFingerX st) (prevFingerVisible st)
         (fingerPositions (lastLandmarksRef st1))
         (stringPhysics st, lastTriggerTimes st, []) (strings fr) = (P, L, E)"
      "out = Rescheduled"
      "st' = st1\<lparr> prevFingerX :=
             fst (commit_fingers (prevFingerX st, prevFingerVisible st)
                    (fingerPositions (lastLandmarksRef st1))),
           prevFingerVisible :=
             snd (commit_fingers (prevFingerX st, prevFingerVisible st)
                    (fingerPositions (lastLandmarksRef st1))),
           lastTriggerTimes := L,
           stringPhysics := renderStringsAndEffects P (strings fr) \<rparr>"
proof (cases "canvas fr = None \<or> videoEl fr = None \<or> \<not> context2d fr")
  case True
  from tick_early [OF this, of st] assms show ?thesis by (intro early) auto
next
  case False
  then obtain w h v where c: "canvas fr = Some (w, h)" "videoEl fr = Some v" "context2d fr"
    by auto
  obtain r st1 where vd: "vision_detection fr v st = (r, st1)"
    by (cases "vision_detection fr v st") auto
  show ?thesis
  proof (cases r)
    case (Inl e)
    with tick_threw [OF c, of st e st1] vd assms
    show ?thesis by (intro threw [OF c, of e]) auto
  next
    case (Inr u)
    obtain P L E0 where sp: "strings_pass w (now fr) (prevFingerX st) (prevFingerVisible st)
         (fingerPositions (lastLandmarksRef st1))
         (stringPhysics st, lastTriggerTimes st, []) (strings fr) = (P, L, E0)"
      by (metis prod_cases3)
    from tick_ran [OF c _ sp, of u] vd Inr assms
    have "out = Rescheduled" "E = E0" "st' = st1\<lparr> prevFingerX :=
             fst (commit_fingers (prevFingerX st, prevFingerVisible st)
                    (fingerPositions (lastLandmarksRef st1))),
           prevFingerVisible :=
             snd (commit_fingers (prevFingerX st, prevFingerVisible st)
                    (fingerPositions (lastLandmarksRef st1))),
           lastTriggerTimes := L,
           stringPhysics := renderStringsAndEffects P (strings fr) \<rparr>"
      by simp_all
    with c vd Inr sp show ?thesis by (intro ran) auto
  qed
qed

lemma no_hands_cache:
  "detectForVideo fr = Inr [] \<Longrightarrow> vision_detection fr v st = (r, st1) \<Longrightarrow>
   lastLandmarksRef st1 = lastLandmarksRef st"
  by (auto simp: vision_detection_def detect_def Let_def
           split: if_splits prod.splits sum.splits option.splits)

lemma fingerPositions_shape:
  "fingerPositions c = [] \<or> (\<exists>f0 f1. fingerPositions c = [f0, f1])"
  by (simp add: fingerPositions_def split: option.splits)

lemma commit_matches:
  "\<forall>slot \<in> set (enumerate 0 (fingerPositions c)).
     visible (snd slot) \<longrightarrow>
     fst (commit_fingers m (fingerPositions c)) (fst slot) = Some (fx (snd slot))"
proof -
  obtain pX pV where m: "m = (pX, pV)" by (cases m)
  from fingerPositions_shape [of c] show ?thesis
    by (auto simp: m commit_fingers_def commit_step_def enumerate_eq_zip)
qed

lemma no_crossing:
  "prev_matches_cache st \<Longrightarrow>
   find (crossing (prevFingerX st) (prevFingerVisible st) str)
     (enumerate 0 (fingerPositions (lastLandmarksRef st))) = None"
  by (auto simp: prev_matches_cache_def find_None_iff crossing_def Let_def split: option.splits)

lemma pass_quiet:
  "\<forall>str \<in> set strs. find (crossing pX pV str) (enumerate 0 fingers) = None \<Longrightarrow>
   strings_pass w t pX pV fingers (P, L, E) strs = (P', L', E') \<Longrightarrow> L' = L \<and> E' = E"
proof (induction strs arbitrary: P)
  case Nil
  then show ?case by simp
next
  case (Cons str strs)
  let ?P1 = "P(sid str \<mapsto> bent w str fingers (entry P (sid str)))"
  from Cons.prems(1) have
    "string_step w t pX pV fingers (P, L, E) str = (?P1, L, E)"
    by (simp add: string_step_eq)
  with Cons.prems(2) have rest: "strings_pass w t pX pV fingers (?P1, L, E) strs = (P', L', E')"
    by simp
  from Cons.prems(1) have
    "\<forall>str \<in> set strs. find (crossing pX pV str) (enumerate 0 fingers) = None" by simp
  from Cons.IH [OF this rest] show ?case .
qed

text \<open>
  Claim C5, as amended. In a tick on which the detector reports no hands, the cached
  landmarks are kept (only switching the camera off clears them); no pluck event is
  fired when the previous positions agree with the cache, as they do after every
  completed tick; and the bend of a string is the bend the cached fingertips give it,
  or 0.8 times its old bend when they give none.
\<close>

theorem no_hands_coasts_on_cache:
  assumes "tick fr st = (out, E, st')" and "detectForVideo fr = Inr []"
  shows "lastLandmarksRef st' = lastLandmarksRef st
       \<and> lastLandmarksRef (cameraActive_effect False st) = None
       \<and> (prev_matches_cache st \<longrightarrow> E = [])
       \<and> (out = Rescheduled \<longrightarrow> prev_matches_cache st')
       \<and> (out = Rescheduled \<and> prev_matches_cache st \<and>
          distinct (map sid (strings fr)) \<and> str \<in> set (strings fr) \<longrightarrow>
            (\<exists>w h. canvas fr = Some (w, h) \<and>
               bend (entry (stringPhysics st') (sid str)) =
                 (let c = closestBend_of w str (entry (stringPhysics st) (sid str))
                            (fingerPositions (lastLandmarksRef st))
                  in if c \<noteq> 0 then c else bend (entry (stringPhysics st) (sid str)) * 0.8)))"
proof -
  have off: "lastLandmarksRef (cameraActive_effect False st) = None"
    by (simp add: cameraActive_effect_def)
  from assms(1) have cache: "lastLandmarksRef st' = lastLandmarksRef st"
  proof (cases rule: tick_cases3)
    case early
    then show ?thesis by simp
  next
    case (threw w h v e)
    from no_hands_cache [OF assms(2) threw(4)] show ?thesis .
  next
    case (ran w h v u st1 P L)
    from no_hands_cache [OF assms(2) ran(4)] ran(7) show ?thesis by simp
  qed
  have quiet: "E = []" if pm: "prev_matches_cache st"
    using assms(1)
  proof (cases rule: tick_cases3)
    case early
    then show ?thesis by simp
  next
    case (threw w h v e)
    then show ?thesis by simp
  next
    case (ran w h v u st1 P L)
    from no_hands_cache [OF assms(2) ran(4)]
    have c1: "lastLandmarksRef st1 = lastLandmarksRef st" .
    have "\<forall>str \<in> set (strings fr).
            find (crossing (prevFingerX st) (prevFingerVisible st) str)
              (enumerate 0 (fingerPositions (lastLandmarksRef st1))) = None"
      unfolding c1 using no_crossing [OF pm] by simp
    from pass_quiet [OF this ran(5)] show ?thesis by simp
  qed
  have inv: "prev_matches_cache st'" if "out = Rescheduled"
    using assms(1)
  proof (cases rule: tick_cases3)
    case early
    with that show ?thesis by simp
  next
    case (threw w h v e)
    with that show ?thesis by simp
  next
    case (ran w h v u st1 P L)
    show ?thesis
      unfolding prev_matches_cache_def ran(7)
      using commit_matches [of "lastLandmarksRef st1" "(prevFingerX st, prevFingerVisible st)"]
      by simp
  qed
  have bnd: "\<exists>w h. canvas fr = Some (w, h) \<and>
               bend (entry (stringPhysics st') (sid str)) =
                 (let c = closestBend_of w str (entry (stringPhysics st) (sid str))
                            (fingerPositions (lastLandmarksRef st))
                  in if c \<noteq> 0 then c else bend (entry (stringPhysics st) (sid str)) * 0.8)"
    if r: "out = Rescheduled" and pm: "prev_matches_cache st"
      and d: "distinct (map sid (strings fr))" and s: "str \<in> set (strings fr)"
  proof -
    from assms(1) r have t: "tick fr st = (Rescheduled, E, st')" by simp
    from quiet [OF pm] have "\<not> (\<exists>e \<in> set E. stringId e = sid str)" by simp
    with tick_entry [OF t d s] cache show ?thesis
      by (auto simp: entry_def bent_def Let_def)
  qed
  from off cache quiet inv bnd show ?thesis by blast
qed

theorem no_hands_coasts_on_cache_witness:
  "lastLandmarksRef (snd (snd (tick (frame_of 1 (Inr []) 1016 (generateStringConfigs 1 MID))
       (snd (snd (tick (frame_of 0 (Inr [hand_at 0.52 0.3]) 1000 (generateStringConfigs 1 MID))
                    ready_Stage))))))
     = Some [hand_at 0.52 0.3]
   \<and> fst (snd (tick (frame_of 1 (Inr []) 1016 (generateStringConfigs 1 MID))
       (snd (snd (tick (frame_of 0 (Inr [hand_at 0.52 0.3]) 1000 (generateStringConfigs 1 MID))
                    ready_Stage))))) = []
   \<and> bend (entry (stringPhysics (snd (snd (tick (frame_of 1 (Inr []) 1016 (generateStringConfigs 1 MID))
       (cameraActive_effect True (cameraActive_effect False
         (snd (snd (tick (frame_of 0 (Inr [hand_at 0.52 0.3]) 1000 (generateStringConfigs 1 MID))
                    ready_Stage))))))))) 0) = 12 * 0.8"
proof -
  let ?strs = "generateStringConfigs 1 MID"
  let ?str = "\<lparr> sid = 0, note = ''C4'', color = ''#FF595E'', xPos = 1 / 2 \<rparr>"
  let ?fA = "frame_of 0 (Inr [hand_at 0.52 0.3]) 1000 ?strs"
  let ?fB = "frame_of 1 (Inr []) 1016 ?strs"
  define stA where "stA = snd (snd (tick ?fA ready_Stage))"
  define stC where "stC = cameraActive_effect True (cameraActive_effect False stA)"
  have A: "lastLandmarksRef stA = Some [hand_at 0.52 0.3]" "prev_matches_cache stA"
    "stringPhysics stA 0 = Some \<lparr> vibration = 0, bend = 12 \<rparr>"
    by (simp_all add: stA_def prev_matches_cache_def one_string eval_defs)
  have C: "lastLandmarksRef stC = None" "prev_matches_cache stC"
    "stringPhysics stC 0 = Some \<lparr> vibration = 0, bend = 12 \<rparr>"
    using A(3) by (simp_all add: stC_def prev_matches_cache_def cameraActive_effect_def
                      fingerPositions_def)
  have f: "detectForVideo ?fB = Inr []" "strings ?fB = [?str]" "canvas ?fB = Some (1000, 800)"
    by (simp_all add: frame_of_def one_string)
  have tA: "tick ?fB stA = (fst (tick ?fB stA), fst (snd (tick ?fB stA)), snd (snd (tick ?fB stA)))"
    by simp
  have oC: "fst (tick ?fB stC) = Rescheduled"
    using C(1) by (simp add: stC_def one_string eval_defs)
  have tC: "tick ?fB stC = (Rescheduled, fst (snd (tick ?fB stC)), snd (snd (tick ?fB stC)))"
    using oC by (simp add: prod_eq_iff)
  from no_hands_coasts_on_cache [OF tA f(1), of ?str] A
  have 1: "lastLandmarksRef (snd (snd (tick ?fB stA))) = Some [hand_at 0.52 0.3]"
    and 2: "fst (snd (tick ?fB stA)) = []"
    by simp_all
  from no_hands_coasts_on_cache [OF tC f(1), of ?str] C f
  have 3: "bend (entry (stringPhysics (snd (snd (tick ?fB stC)))) 0) = 12 * 0.8"
    by (simp add: entry_def fingerPositions_def closestBend_of_def)
  from 1 2 3 show ?thesis unfolding stC_def stA_def by blast
qed

text \<open>
  Claim C5 as stated fails: after a frame with a fingertip at 0.52, a frame on which
  the detector reports no hands keeps the cached hand, and the string at 0.5 keeps its
  bend of 12 pixels instead of decaying.
\<close>

theorem no_hands_counterexample:
  "lastLandmarksRef (snd (snd (tick (frame_of 1 (Inr []) 1016 (generateStringConfigs 1 MID))
       (snd (snd (tick (frame_of 0 (Inr [hand_at 0.52 0.3]) 1000 (generateStringConfigs 1 MID))
                    ready_Stage))))))
     = Some [hand_at 0.52 0.3]
   \<and> stringPhysics (snd (snd (tick (frame_of 0 (Inr [hand_at 0.52 0.3]) 1000
                                     (generateStringConfigs 1 MID)) ready_Stage))) 0
     = Some \<lparr> vibration = 0, bend = 12 \<rparr>
   \<and> stringPhysics (snd (snd (tick (frame_of 1 (Inr []) 1016 (generateStringConfigs 1 MID))
       (snd (snd (tick (frame_of 0 (Inr [hand_at 0.52 0.3]) 1000 (generateStringConfigs 1 MID))
                    ready_Stage)))))) 0
     = Some \<lparr> vibration = 0, bend = 12 \<rparr>"
  by (simp add: one_string eval_defs)

section \<open>A detector that is not ready, or throws\<close>

text \<open>
  Claim C8, as amended. With canvas, video and context present: while the detector is
  not initialised the tick runs to its end on the previous cache, without calling the
  detector; when the detector throws on a new video frame, the exception leaves the
  tick, no event is fired, the next frame is not requested and the frame loop ends.
\<close>

theorem detector_failure_outcomes:
  assumes "canvas fr = Some (w, h)" and "videoEl fr = Some video" and "context2d fr"
  shows "(\<not> handLandmarker (visionService st) \<and>
          (case lastLandmarksRef st of
             Some (hand # _) \<Rightarrow> landmark_at hand 8 \<noteq> None | _ \<Rightarrow> True) \<longrightarrow>
            fst (tick fr st) = Rescheduled \<and>
            lastLandmarksRef (snd (snd (tick fr st))) = lastLandmarksRef st \<and>
            detectorCalls (visionService (snd (snd (tick fr st)))) = detectorCalls (visionService st))
       \<and> (handLandmarker (visionService st) \<and> cameraActiveRef st \<and> readyState video \<ge> 2 \<and>
          currentTime video \<noteq> lastVideoTime (visionService st) \<and>
          detectForVideo fr = Inl e \<longrightarrow>
            fst (tick fr st) = Threw e \<and> fst (snd (tick fr st)) = [] \<and>
            fst (frame_loop (fr # frs) st) = Threw e \<and>
            fst (snd (frame_loop (fr # frs) st)) = [])"
proof -
  have a: "fst (tick fr st) = Rescheduled \<and>
            lastLandmarksRef (snd (snd (tick fr st))) = lastLandmarksRef st \<and>
            detectorCalls (visionService (snd (snd (tick fr st)))) = detectorCalls (visionService st)"
    if n: "\<not> handLandmarker (visionService st)"
      and ok: "case lastLandmarksRef st of
             Some (hand # _) \<Rightarrow> landmark_at hand 8 \<noteq> None | _ \<Rightarrow> True"
  proof -
    have "vision_detection fr video st = (Inr (), st\<lparr> visionService := visionService st \<rparr>)
          \<or> vision_detection fr video st = (Inr (), st)"
      using n ok
      by (auto simp: vision_detection_def detect_def Let_def hd_conv_nth
               split: option.splits list.splits)
    then obtain st1 where vd: "vision_detection fr video st = (Inr (), st1)"
      and same: "lastLandmarksRef st1 = lastLandmarksRef st"
                "visionService st1 = visionService st"
      by auto
    obtain P L E where sp: "strings_pass w (now fr) (prevFingerX st) (prevFingerVisible st)
         (fingerPositions (lastLandmarksRef st1))
         (stringPhysics st, lastTriggerTimes st, []) (strings fr) = (P, L, E)"
      by (metis prod_cases3)
    from tick_ran [OF assms vd sp] same show ?thesis by simp
  qed
  have b: "fst (tick fr st) = Threw e \<and> fst (snd (tick fr st)) = [] \<and>
            fst (frame_loop (fr # frs) st) = Threw e \<and>
            fst (snd (frame_loop (fr # frs) st)) = []"
    if "handLandmarker (visionService st)" "cameraActiveRef st" "readyState video \<ge> 2"
       "currentTime video \<noteq> lastVideoTime (visionService st)" "detectForVideo fr = Inl e"
  proof -
    from that obtain st1 where "vision_detection fr video st = (Inl e, st1)"
      by (simp add: vision_detection_def detect_def Let_def)
    from tick_threw [OF assms this] show ?thesis by simp
  qed
  from a b show ?thesis by blast
qed

theorem detector_failure_outcomes_witness:
  "fst (tick (frame_of 0 (Inr [hand_at 0.52 0.3]) 1000 (generateStringConfigs 1 MID))
          (cameraActive_effect True (new_Stage new_VisionService))) = Rescheduled
   \<and> lastLandmarksRef (snd (snd (tick (frame_of 0 (Inr [hand_at 0.52 0.3]) 1000
          (generateStringConfigs 1 MID))
          (cameraActive_effect True (new_Stage new_VisionService))))) = None
   \<and> fst (frame_loop [frame_of 0 (Inl DetectorError) 1000 (generateStringConfigs 1 MID),
                      frame_of 1 (Inr [hand_at 0.52 0.3]) 1016 (generateStringConfigs 1 MID)]
          ready_Stage) = Threw DetectorError"
proof -
  let ?st0 = "cameraActive_effect True (new_Stage new_VisionService)"
  let ?fr = "frame_of 0 (Inr [hand_at 0.52 0.3]) 1000 (generateStringConfigs 1 MID)"
  let ?bad = "frame_of 0 (Inl DetectorError) 1000 (generateStringConfigs 1 MID)"
  have c: "canvas ?fr = Some (1000, 800)" "videoEl ?fr = Some \<lparr> currentTime = 0, readyState = 4 \<rparr>"
    "context2d ?fr"
    "canvas ?bad = Some (1000, 800)" "videoEl ?bad = Some \<lparr> currentTime = 0, readyState = 4 \<rparr>"
    "context2d ?bad" "detectForVideo ?bad = Inl DetectorError"
    by (simp_all add: frame_of_def)
  have s0: "\<not> handLandmarker (visionService ?st0)" "lastLandmarksRef ?st0 = None"
    by (simp_all add: cameraActive_effect_def new_Stage_def new_VisionService_def)
  have r: "handLandmarker (visionService ready_Stage)" "cameraActiveRef ready_Stage"
    "lastVideoTime (visionService ready_Stage) = - 1"
    by (simp_all add: ready_Stage_def cameraActive_effect_def new_Stage_def
          new_VisionService_def initialize_def)
  from detector_failure_outcomes [OF c(1-3), of ?st0] s0
  have 1: "fst (tick ?fr ?st0) = Rescheduled"
    "lastLandmarksRef (snd (snd (tick ?fr ?st0))) = None"
    by simp_all
  from detector_failure_outcomes [OF c(4-6), of ready_Stage DetectorError
         "[frame_of 1 (Inr [hand_at 0.52 0.3]) 1016 (generateStringConfigs 1 MID)]"] r c(7)
  have 2: "fst (frame_loop [?bad, frame_of 1 (Inr [hand_at 0.52 0.3]) 1016
                                  (generateStringConfigs 1 MID)] ready_Stage) = Threw DetectorError"
    by simp
  from 1 2 show ?thesis by blast
qed

text \<open>
  Claim C8 as stated fails: a detector exception on the first frame leaves \<open>tick\<close>, and
  the frame loop does not process the frame after it.
\<close>

theorem detector_throw_counterexample:
  "tick (frame_of 0 (Inl DetectorError) 1000 (generateStringConfigs 1 MID)) ready_Stage
     = (Threw DetectorError, [],
        ready_Stage\<lparr> visionService :=
          \<lparr> handLandmarker = True, lastVideoTime = 0, detectorCalls = 1 \<rparr> \<rparr>)
   \<and> fst (frame_loop [frame_of 0 (Inl DetectorError) 1000 (generateStringConfigs 1 MID),
                      frame_of 1 (Inr [hand_at 0.52 0.3]) 1016 (generateStringConfigs 1 MID)]
          ready_Stage) = Threw DetectorError"
  by (simp add: tick_def vision_detection_def detect_def frame_of_def ready_Stage_def
        cameraActive_effect_def new_Stage_def initialize_def new_VisionService_def Let_def)

section \<open>A finger sweeping over the strings\<close>

lemma finger_tick:
  assumes ff: "finger_frame strs y (vt, x') fr"
    and init: "handLandmarker (visionService st)" "cameraActiveRef st"
      "lastVideoTime (visionService st) \<noteq> vt"
    and d: "distinct (map sid strs)"
  shows "\<exists>E st'. tick fr st = (Rescheduled, E, st') \<and>
     E = concat (map (plucks_of (now fr) (prevFingerX st) (prevFingerVisible st)
                        [\<lparr> fx = x', fy = y, visible = True \<rparr>, hidden_finger]
                        (lastTriggerTimes st)) strs) \<and>
     (\<forall>str \<in> set strs.
        lastTriggerTimes st' (sid str) =
          (case fires (now fr) (prevFingerX st) (prevFingerVisible st)
                  [\<lparr> fx = x', fy = y, visible = True \<rparr>, hidden_finger]
                  (lastTriggerTimes st) str of
             None \<Rightarrow> lastTriggerTimes st (sid str) | Some slot \<Rightarrow> Some (now fr))) \<and>
     handLandmarker (visionService st') \<and> lastVideoTime (visionService st') = vt \<and>
     cameraActiveRef st' \<and> prevFingerVisible st' 0 \<and> prevFingerX st' 0 = Some x'"
proof -
  from ff obtain w h video hand tip where
    c: "canvas fr = Some (w, h)" "videoEl fr = Some video" "context2d fr" and
    s: "strings fr = strs" and
    v: "readyState video \<ge> 2" "currentTime video = vt" and
    a: "detectForVideo fr = Inr [hand]" "landmark_at hand 8 = Some tip"
       "1 - lx tip = x'" "ly tip = y"
    by (auto simp: finger_frame_def)
  let ?vs = "(visionService st)\<lparr> lastVideoTime := vt,
                 detectorCalls := detectorCalls (visionService st) + 1 \<rparr>"
  let ?st1 = "st\<lparr> visionService := ?vs, lastLandmarksRef := Some [hand] \<rparr>"
  let ?fs = "[\<lparr> fx = x', fy = y, visible = True \<rparr>, hidden_finger]"
  have vd: "vision_detection fr video st = (Inr (), ?st1)"
    using init v a by (simp add: vision_detection_def detect_def Let_def)
  have fs: "fingerPositions (lastLandmarksRef ?st1) = ?fs"
    using a by (simp add: fingerPositions_def finger_of_slot_def landmark_at_def)
  obtain P L E where sp: "strings_pass w (now fr) (prevFingerX st) (prevFingerVisible st)
         (fingerPositions (lastLandmarksRef ?st1))
         (stringPhysics st, lastTriggerTimes st, []) (strings fr) = (P, L, E)"
    by (metis prod_cases3)
  note t = tick_ran [OF c vd sp]
  from pass_distinct [OF d sp [unfolded s fs]]
  have E: "E = concat (map (plucks_of (now fr) (prevFingerX st) (prevFingerVisible st) ?fs
                        (lastTriggerTimes st)) strs)"
    and L: "\<forall>str \<in> set strs.
        L (sid str) =
          (case fires (now fr) (prevFingerX st) (prevFingerVisible st) ?fs
                  (lastTriggerTimes st) str of
             None \<Rightarrow> lastTriggerTimes st (sid str) | Some slot \<Rightarrow> Some (now fr))"
    by simp_all
  have cm: "fst (commit_fingers (prevFingerX st, prevFingerVisible st) ?fs) 0 = Some x'"
    "snd (commit_fingers (prevFingerX st, prevFingerVisible st) ?fs) 0"
    by (simp_all add: commit_fingers_def commit_step_def hidden_finger_def)
  show ?thesis
    unfolding t fs using E L cm init by simp
qed

lemma sweep_fires:
  assumes inv: "sweep_inv strs vt x st" and le: "x \<le> x'" and y: "y \<le> 0.67"
    and t: "DEBOUNCE_MS < now fr" and s: "str \<in> set strs"
  shows "fires (now fr) (prevFingerX st) (prevFingerVisible st)
           [\<lparr> fx = x', fy = y, visible = True \<rparr>, hidden_finger] (lastTriggerTimes st) str
         = (if x < xPos str \<and> xPos str \<le> x'
            then Some (0, \<lparr> fx = x', fy = y, visible = True \<rparr>) else None)"
proof -
  from inv have p: "prevFingerVisible st 0" "prevFingerX st 0 = Some x"
    and led: "x < xPos str \<Longrightarrow> lastTriggerTimes st (sid str) = None"
    using s by (auto simp: sweep_inv_def)
  have c0: "crossing (prevFingerX st) (prevFingerVisible st) str
              (0, \<lparr> fx = x', fy = y, visible = True \<rparr>) = (x < xPos str \<and> xPos str \<le> x')"
    using p y le by (auto simp: crossing_def Let_def)
  have c1: "\<not> crossing (prevFingerX st) (prevFingerVisible st) str (Suc 0, hidden_finger)"
    by (simp add: crossing_def hidden_finger_def)
  show ?thesis
  proof (cases "x < xPos str \<and> xPos str \<le> x'")
    case True
    with led have "lastTime_of (lastTriggerTimes st) (sid str) = 0"
      by (simp add: lastTime_of_def)
    with True t c0 show ?thesis by (simp add: fires_def)
  next
    case False
    with c0 c1 show ?thesis by (simp add: fires_def)
  qed
qed

lemma concat_map_if:
  "concat (map (\<lambda>s. if Q s then [f s] else []) xs) = map f (filter Q xs)"
  by (induction xs) simp_all

lemma sweep_tick:
  assumes ff: "finger_frame strs y (vt', x') fr" and inv: "sweep_inv strs vt x st"
    and vt: "vt \<noteq> vt'" and le: "x \<le> x'" and y: "y \<le> 0.67"
    and t: "DEBOUNCE_MS < now fr" and d: "distinct (map sid strs)"
  shows "\<exists>E st'. tick fr st = (Rescheduled, E, st') \<and>
           E = map (\<lambda>str. \<lparr> stringId = sid str, time = now fr, yPosNormalized = y \<rparr>)
                 (filter (\<lambda>str. x < xPos str \<and> xPos str \<le> x') strs) \<and>
           sweep_inv strs vt' x' st'"
proof -
  let ?f = "\<lparr> fx = x', fy = y, visible = True \<rparr>"
  from inv vt have init: "handLandmarker (visionService st)" "cameraActiveRef st"
    "lastVideoTime (visionService st) \<noteq> vt'"
    by (auto simp: sweep_inv_def)
  from finger_tick [OF ff init d] obtain E st' where
    tk: "tick fr st = (Rescheduled, E, st')" and
    E: "E = concat (map (plucks_of (now fr) (prevFingerX st) (prevFingerVisible st)
                        [?f, hidden_finger] (lastTriggerTimes st)) strs)" and
    L: "\<forall>str \<in> set strs.
        lastTriggerTimes st' (sid str) =
          (case fires (now fr) (prevFingerX st) (prevFingerVisible st)
                  [?f, hidden_finger] (lastTriggerTimes st) str of
             None \<Rightarrow> lastTriggerTimes st (sid str) | Some slot \<Rightarrow> Some (now fr))" and
    rest: "handLandmarker (visionService st')" "lastVideoTime (visionService st') = vt'"
      "cameraActiveRef st'" "prevFingerVisible st' 0" "prevFingerX st' 0 = Some x'"
    by blast
  have pl: "plucks_of (now fr) (prevFingerX st) (prevFingerVisible st)
              [?f, hidden_finger] (lastTriggerTimes st) str
            = (if x < xPos str \<and> xPos str \<le> x'
               then [\<lparr> stringId = sid str, time = now fr, yPosNormalized = y \<rparr>] else [])"
    if "str \<in> set strs" for str
    using sweep_fires [OF inv le y t that] by (simp add: plucks_of_def)
  have "E = concat (map (\<lambda>str. if x < xPos str \<and> xPos str \<le> x'
               then [\<lparr> stringId = sid str, time = now fr, yPosNormalized = y \<rparr>] else []) strs)"
    unfolding E using pl by (intro arg_cong [where f = concat] map_cong) simp_all
  then have E': "E = map (\<lambda>str. \<lparr> stringId = sid str, time = now fr, yPosNormalized = y \<rparr>)
                 (filter (\<lambda>str. x < xPos str \<and> xPos str \<le> x') strs)"
    by (simp only: concat_map_if)
  have led: "lastTriggerTimes st' (sid str) = None" if "str \<in> set strs" "x' < xPos str" for str
  proof -
    from that le have "x < xPos str" by simp
    with inv that(1) have "lastTriggerTimes st (sid str) = None" by (auto simp: sweep_inv_def)
    moreover from that have "fires (now fr) (prevFingerX st) (prevFingerVisible st)
                  [?f, hidden_finger] (lastTriggerTimes st) str = None"
      using sweep_fires [OF inv le y t that(1)] by simp
    ultimately show ?thesis using L that(1) by simp
  qed
  from rest led have "sweep_inv strs vt' x' st'" by (simp add: sweep_inv_def)
  with tk E' show ?thesis by blast
qed

lemma first_tick:
  assumes ff: "finger_frame strs y (vt, x) fr"
    and init: "handLandmarker (visionService st)" "cameraActiveRef st"
      "lastVideoTime (visionService st) \<noteq> vt"
    and nv: "\<not> prevFingerVisible st 0"
    and led: "\<forall>str \<in> set strs. lastTriggerTimes st (sid str) = None"
    and d: "distinct (map sid strs)"
  shows "\<exists>st'. tick fr st = (Rescheduled, [], st') \<and> sweep_inv strs vt x st'"
proof -
  let ?f = "\<lparr> fx = x, fy = y, visible = True \<rparr>"
  from finger_tick [OF ff init d] obtain E st' where
    tk: "tick fr st = (Rescheduled, E, st')" and
    E: "E = concat (map (plucks_of (now fr) (prevFingerX st) (prevFingerVisible st)
                        [?f, hidden_finger] (lastTriggerTimes st)) strs)" and
    L: "\<forall>str \<in> set strs.
        lastTriggerTimes st' (sid str) =
          (case fires (now fr) (prevFingerX st) (prevFingerVisible st)
                  [?f, hidden_finger] (lastTriggerTimes st) str of
             None \<Rightarrow> lastTriggerTimes st (sid str) | Some slot \<Rightarrow> Some (now fr))" and
    rest: "handLandmarker (visionService st')" "lastVideoTime (visionService st') = vt"
      "cameraActiveRef st'" "prevFingerVisible st' 0" "prevFingerX st' 0 = Some x"
    by blast
  have nf: "fires (now fr) (prevFingerX st) (prevFingerVisible st)
                  [?f, hidden_finger] (lastTriggerTimes st) str = None" for str
    using nv by (simp add: fires_def crossing_def hidden_finger_def Let_def split: option.splits)
  then have "E = []" unfolding E by (simp add: plucks_of_def)
  moreover from L nf led have "\<forall>str \<in> set strs. lastTriggerTimes st' (sid str) = None"
    by simp
  with rest have "sweep_inv strs vt x st'" by (simp add: sweep_inv_def)
  ultimately show ?thesis using tk by blast
qed

lemma sweep_loop:
  "list_all2 (finger_frame strs y) samples frs \<Longrightarrow> sweep_inv strs vt x st \<Longrightarrow>
   sorted_wrt (<) (vt # map fst samples) \<Longrightarrow> sorted (x # map snd samples) \<Longrightarrow>
   y \<le> 0.67 \<Longrightarrow> \<forall>fr \<in> set frs. DEBOUNCE_MS < now fr \<Longrightarrow> distinct (map sid strs) \<Longrightarrow>
   \<exists>st'. frame_loop frs st
           = (Rescheduled, sweep_plucks strs y x (zip (map snd samples) frs), st')"
proof (induction samples frs arbitrary: vt x st rule: list_all2_induct)
  case Nil
  then show ?case by simp
next
  case (Cons sample samples fr frs)
  obtain vt' x' where sample: "sample = (vt', x')" by (cases sample)
  from Cons.prems(2) sample have vt: "vt \<noteq> vt'"
    and vts: "sorted_wrt (<) (vt' # map fst samples)" by auto
  from Cons.prems(3) sample have le: "x \<le> x'" and xs: "sorted (x' # map snd samples)"
    by auto
  from Cons.prems(5) have t: "DEBOUNCE_MS < now fr" and ts: "\<forall>fr \<in> set frs. DEBOUNCE_MS < now fr"
    by simp_all
  from sweep_tick [OF Cons.hyps(1) [unfolded sample] Cons.prems(1) vt le Cons.prems(4) t Cons.prems(6)]
  obtain E st1 where tk: "tick fr st = (Rescheduled, E, st1)"
    and E: "E = map (\<lambda>str. \<lparr> stringId = sid str, time = now fr, yPosNormalized = y \<rparr>)
                 (filter (\<lambda>str. x < xPos str \<and> xPos str \<le> x') strs)"
    and inv1: "sweep_inv strs vt' x' st1" by blast
  from Cons.IH [OF inv1 vts xs Cons.prems(4) ts Cons.prems(6)] obtain st' where
    "frame_loop frs st1 = (Rescheduled, sweep_plucks strs y x' (zip (map snd samples) frs), st')"
    by blast
  with tk E sample show ?case by simp
qed

lemma filter_split_sorted:
  "sorted (map xPos strs) \<Longrightarrow> a \<le> b \<Longrightarrow> b \<le> c \<Longrightarrow>
   filter (\<lambda>s. a < xPos s \<and> xPos s \<le> b) strs @ filter (\<lambda>s. b < xPos s \<and> xPos s \<le> c) strs
   = filter (\<lambda>s. a < xPos s \<and> xPos s \<le> c) strs"
proof (induction strs)
  case Nil
  then show ?case by simp
next
  case (Cons s strs)
  from Cons.prems have srt: "sorted (map xPos strs)" and later: "\<forall>u \<in> set strs. xPos s \<le> xPos u"
    by simp_all
  note IH = Cons.IH [OF srt Cons.prems(2,3)]
  show ?case
  proof (cases "b < xPos s")
    case True
    with later have "filter (\<lambda>s. a < xPos s \<and> xPos s \<le> b) strs = []"
      by (auto simp: filter_empty_conv)
    with IH True Cons.prems(2) show ?thesis by auto
  next
    case False
    with IH Cons.prems(3) show ?thesis by auto
  qed
qed

lemma stringId_sweep_plucks:
  "sorted (map xPos strs) \<Longrightarrow> sorted (x # map fst pairs) \<Longrightarrow>
   map stringId (sweep_plucks strs y x pairs)
   = map sid (filter (\<lambda>s. x < xPos s \<and> xPos s \<le> last (x # map fst pairs)) strs)"
proof (induction pairs arbitrary: x)
  case Nil
  then show ?case by simp
next
  case (Cons pair pairs)
  obtain x' fr where pair: "pair = (x', fr)" by (cases pair)
  from Cons.prems(2) pair have le: "x \<le> x'" and srt: "sorted (x' # map fst pairs)" by auto
  from srt have le2: "x' \<le> last (x' # map fst pairs)"
    by (metis last_in_set list.distinct(1) list.set_intros(1) order_refl set_ConsD sorted_simps(2))
  from Cons.IH [OF Cons.prems(1) srt]
  have "map stringId (sweep_plucks strs y x (pair # pairs))
        = map sid (filter (\<lambda>s. x < xPos s \<and> xPos s \<le> x') strs @
                   filter (\<lambda>s. x' < xPos s \<and> xPos s \<le> last (x' # map fst pairs)) strs)"
    by (simp add: pair comp_def)
  also have "\<dots> = map sid (filter (\<lambda>s. x < xPos s \<and> xPos s \<le> last (x' # map fst pairs)) strs)"
    by (simp only: filter_split_sorted [OF Cons.prems(1) le le2])
  finally show ?case by (simp add: pair)
qed

lemma twelve_strings:
  "distinct (map sid (generateStringConfigs 12 MID))"
  "sorted (map xPos (generateStringConfigs 12 MID))"
  "map sid (generateStringConfigs 12 MID) = [0..<12]"
  "filter (\<lambda>s. 0.05 < xPos s \<and> xPos s \<le> 0.95) (generateStringConfigs 12 MID)
     = generateStringConfigs 12 MID"
proof -
  show ids: "map sid (generateStringConfigs 12 MID) = [0..<12]"
    using map_sid_generateStringConfigs [of 12 MID] by simp
  then show "distinct (map sid (generateStringConfigs 12 MID))" by simp
  have "sorted_wrt (<) (map xPos (generateStringConfigs 12 MID))"
    by (rule xPos_generateStringConfigs_sorted) simp
  then show "sorted (map xPos (generateStringConfigs 12 MID))"
    by (rule strict_sorted_imp_sorted)
  have "0.05 < xPos s \<and> xPos s \<le> 0.95" if "s \<in> set (generateStringConfigs 12 MID)" for s
  proof -
    from that obtain i where i: "i < 12" and s: "s = config_at 12 (octaveStart_of MID) i"
      by (auto simp: generateStringConfigs_map)
    have "1 \<le> real i + 1" "real i + 1 \<le> 12" using i by simp_all
    then show ?thesis by (simp add: s)
  qed
  then show "filter (\<lambda>s. 0.05 < xPos s \<and> xPos s \<le> 0.95) (generateStringConfigs 12 MID)
     = generateStringConfigs 12 MID"
    by (simp add: filter_id_conv)
qed

lemma sweep_run:
  assumes "list_all2 (finger_frame strs y) ((vt0, x0) # samples) (fr0 # frs)"
    and "sorted_wrt (<) (lastVideoTime (visionService st) # vt0 # map fst samples)"
    and "sorted (x0 # map snd samples)" and "y \<le> 0.67"
    and "\<forall>fr \<in> set frs. DEBOUNCE_MS < now fr"
    and "handLandmarker (visionService st)" and "cameraActiveRef st"
    and "\<not> prevFingerVisible st 0"
    and "\<forall>str \<in> set strs. lastTriggerTimes st (sid str) = None"
    and "distinct (map sid strs)"
  shows "\<exists>st'. frame_loop (fr0 # frs) st
           = (Rescheduled, sweep_plucks strs y x0 (zip (map snd samples) frs), st')"
proof -
  from assms(1) have f0: "finger_frame strs y (vt0, x0) fr0"
    and fs: "list_all2 (finger_frame strs y) samples frs" by simp_all
  from assms(2) have v0: "lastVideoTime (visionService st) \<noteq> vt0"
    and vs: "sorted_wrt (<) (vt0 # map fst samples)" by auto
  from first_tick [OF f0 assms(6,7) v0 assms(8,9,10)] obtain st1 where
    t0: "tick fr0 st = (Rescheduled, [], st1)" and inv: "sweep_inv strs vt0 x0 st1" by blast
  from sweep_loop [OF fs inv vs assms(3,4,5,10)] obtain st' where
    "frame_loop frs st1 = (Rescheduled, sweep_plucks strs y x0 (zip (map snd samples) frs), st')"
    by blast
  with t0 show ?thesis by simp
qed

text \<open>
  Claim C2, as amended. With the 12 strings of the mid range, a started detector and
  no string triggered before: when the finger of the first hand appears at
  \<open>x = 0.05\<close>, \<open>y = 0.3\<close> and is then seen on each new video frame at a position not
  left of the previous one, ending at \<open>x = 0.95\<close>, and the clock of every later frame
  reads more than \<open>DEBOUNCE_MS\<close>, the frame loop fires exactly 12 pluck events, for
  the string ids 0 to 11 in this order; each event carries the clock reading of the
  frame whose step went over its string.
\<close>

theorem sweep_plucks_each_string_once:
  assumes "list_all2 (finger_frame (generateStringConfigs 12 MID) 0.3)
             ((vt0, 0.05) # samples) (fr0 # frs)"
    and "sorted_wrt (<) (lastVideoTime (visionService st) # vt0 # map fst samples)"
    and "sorted (0.05 # map snd samples)" and "last (0.05 # map snd samples) = 0.95"
    and "\<forall>fr \<in> set frs. DEBOUNCE_MS < now fr"
    and "handLandmarker (visionService st)" and "cameraActiveRef st"
    and "\<not> prevFingerVisible st 0"
    and "\<forall>i < 12. lastTriggerTimes st i = None"
  shows "fst (frame_loop (fr0 # frs) st) = Rescheduled
       \<and> map stringId (fst (snd (frame_loop (fr0 # frs) st))) = [0..<12]
       \<and> fst (snd (frame_loop (fr0 # frs) st))
           = sweep_plucks (generateStringConfigs 12 MID) 0.3 0.05 (zip (map snd samples) frs)"
proof -
  let ?strs = "generateStringConfigs 12 MID"
  have led: "\<forall>str \<in> set ?strs. lastTriggerTimes st (sid str) = None"
  proof
    fix str assume "str \<in> set ?strs"
    then have "sid str \<in> set (map sid ?strs)" by simp
    then have "sid str < 12" unfolding twelve_strings(3) by simp
    with assms(9) show "lastTriggerTimes st (sid str) = None" by simp
  qed
  have y: "(0.3::real) \<le> 0.67" by simp
  from sweep_run [OF assms(1,2,3) y assms(5,6,7,8) led twelve_strings(1)] obtain st' where
    run: "frame_loop (fr0 # frs) st
          = (Rescheduled, sweep_plucks ?strs 0.3 0.05 (zip (map snd samples) frs), st')"
    by blast
  from assms(1) have "length samples = length frs" by (auto dest: list_all2_lengthD)
  then have fstzip: "map fst (zip (map snd samples) frs) = map snd samples" by simp
  have srt: "sorted (0.05 # map fst (zip (map snd samples) frs))"
    unfolding fstzip by (rule assms(3))
  have "map stringId (sweep_plucks ?strs 0.3 0.05 (zip (map snd samples) frs))
        = map sid (filter (\<lambda>s. 0.05 < xPos s \<and> xPos s \<le> 0.95) ?strs)"
    using stringId_sweep_plucks [OF twelve_strings(2) srt, where y = "0.3"]
    unfolding fstzip assms(4) .
  also have "\<dots> = [0..<12]"
    unfolding twelve_strings(4) by (rule twelve_strings(3))
  finally show ?thesis using run by simp
qed

lemma sweep_in_two_frames:
  "\<exists>st'. frame_loop
      [frame_of 0 (Inr [hand_at 0.05 0.3]) 1000 (generateStringConfigs 12 MID),
       frame_of 1 (Inr [hand_at 0.95 0.3]) 1016 (generateStringConfigs 12 MID)] ready_Stage
    = (Rescheduled,
       map (\<lambda>str. \<lparr> stringId = sid str, time = 1016, yPosNormalized = 0.3 \<rparr>)
         (generateStringConfigs 12 MID), st')"
proof -
  let ?strs = "generateStringConfigs 12 MID"
  let ?f0 = "frame_of 0 (Inr [hand_at 0.05 0.3]) 1000 ?strs"
  let ?f1 = "frame_of 1 (Inr [hand_at 0.95 0.3]) 1016 ?strs"
  have ff: "list_all2 (finger_frame ?strs 0.3) ((0, 0.05) # [(1, 0.95)]) (?f0 # [?f1])"
    by (simp add: finger_frame_def frame_of_def hand_at_def landmark_at_def)
  have r: "handLandmarker (visionService ready_Stage)" "cameraActiveRef ready_Stage"
    "\<not> prevFingerVisible ready_Stage 0"
    "\<forall>str \<in> set ?strs. lastTriggerTimes ready_Stage (sid str) = None"
    "sorted_wrt (<) (lastVideoTime (visionService ready_Stage) # 0 # map fst [(1::real, 0.95::real)])"
    by (simp_all add: ready_Stage_def cameraActive_effect_def new_Stage_def
          new_VisionService_def initialize_def)
  have x: "sorted (0.05 # map snd [(1::real, 0.95::real)])" by simp
  have y: "(0.3::real) \<le> 0.67" by simp
  have t: "\<forall>fr \<in> set [?f1]. DEBOUNCE_MS < now fr"
    by (simp add: frame_of_def DEBOUNCE_MS_def)
  from sweep_run [OF ff r(5) x y t r(1,2,3,4) twelve_strings(1)] obtain st' where
    "frame_loop (?f0 # [?f1]) ready_Stage
       = (Rescheduled, sweep_plucks ?strs 0.3 0.05 (zip (map snd [(1::real, 0.95::real)]) [?f1]), st')"
    by blast
  moreover have "sweep_plucks ?strs 0.3 0.05 (zip (map snd [(1::real, 0.95::real)]) [?f1])
     = map (\<lambda>str. \<lparr> stringId = sid str, time = now ?f1, yPosNormalized = 0.3 \<rparr>)
         (filter (\<lambda>s. 0.05 < xPos s \<and> xPos s \<le> 0.95) ?strs)"
    by simp
  moreover have "now ?f1 = 1016" by (simp add: frame_of_def)
  ultimately show ?thesis unfolding twelve_strings(4) by auto
qed

theorem sweep_plucks_each_string_once_witness:
  "fst (frame_loop
      [frame_of 0 (Inr [hand_at 0.05 0.3]) 1000 (generateStringConfigs 12 MID),
       frame_of 1 (Inr [hand_at 0.95 0.3]) 1016 (generateStringConfigs 12 MID)] ready_Stage)
     = Rescheduled
   \<and> map stringId (fst (snd (frame_loop
      [frame_of 0 (Inr [hand_at 0.05 0.3]) 1000 (generateStringConfigs 12 MID),
       frame_of 1 (Inr [hand_at 0.95 0.3]) 1016 (generateStringConfigs 12 MID)] ready_Stage)))
     = [0..<12]"
proof -
  let ?strs = "generateStringConfigs 12 MID"
  let ?f0 = "frame_of 0 (Inr [hand_at 0.05 0.3]) 1000 ?strs"
  let ?f1 = "frame_of 1 (Inr [hand_at 0.95 0.3]) 1016 ?strs"
  have ff: "list_all2 (finger_frame ?strs 0.3) ((0, 0.05) # [(1, 0.95)]) (?f0 # [?f1])"
    by (simp add: finger_frame_def frame_of_def hand_at_def landmark_at_def)
  have r: "handLandmarker (visionService ready_Stage)" "cameraActiveRef ready_Stage"
    "\<not> prevFingerVisible ready_Stage 0"
    "\<forall>i < 12. lastTriggerTimes ready_Stage i = None"
    "sorted_wrt (<) (lastVideoTime (visionService ready_Stage) # 0 # map fst [(1::real, 0.95::real)])"
    by (simp_all add: ready_Stage_def cameraActive_effect_def new_Stage_def
          new_VisionService_def initialize_def)
  have x: "sorted (0.05 # map snd [(1::real, 0.95::real)])"
    "last (0.05 # map snd [(1::real, 0.95::real)]) = 0.95" by simp_all
  have t: "\<forall>fr \<in> set [?f1]. DEBOUNCE_MS < now fr"
    by (simp add: frame_of_def DEBOUNCE_MS_def)
  from sweep_plucks_each_string_once [OF ff r(5) x t r(1,2,3,4)]
  show ?thesis by blast
qed

text \<open>
  Claim C2 as stated fails: when the finger goes from 0.05 to 0.95 in one step, the 12
  events are fired in the same frame, in ascending order of id but 0 ms apart.
\<close>

theorem sweep_spacing_counterexample:
  "map stringId (fst (snd (frame_loop
      [frame_of 0 (Inr [hand_at 0.05 0.3]) 1000 (generateStringConfigs 12 MID),
       frame_of 1 (Inr [hand_at 0.95 0.3]) 1016 (generateStringConfigs 12 MID)] ready_Stage)))
     = [0..<12]
   \<and> map time (fst (snd (frame_loop
      [frame_of 0 (Inr [hand_at 0.05 0.3]) 1000 (generateStringConfigs 12 MID),
       frame_of 1 (Inr [hand_at 0.95 0.3]) 1016 (generateStringConfigs 12 MID)] ready_Stage)))
     = replicate 12 1016
   \<and> time (fst (snd (frame_loop
      [frame_of 0 (Inr [hand_at 0.05 0.3]) 1000 (generateStringConfigs 12 MID),
       frame_of 1 (Inr [hand_at 0.95 0.3]) 1016 (generateStringConfigs 12 MID)] ready_Stage)) ! 1)
     - time (fst (snd (frame_loop
      [frame_of 0 (Inr [hand_at 0.05 0.3]) 1000 (generateStringConfigs 12 MID),
       frame_of 1 (Inr [hand_at 0.95 0.3]) 1016 (generateStringConfigs 12 MID)] ready_Stage)) ! 0)
     < DEBOUNCE_MS"
proof -
  let ?strs = "generateStringConfigs 12 MID"
  from sweep_in_two_frames obtain st' where
    run: "frame_loop
      [frame_of 0 (Inr [hand_at 0.05 0.3]) 1000 ?strs,
       frame_of 1 (Inr [hand_at 0.95 0.3]) 1016 ?strs] ready_Stage
    = (Rescheduled,
       map (\<lambda>str. \<lparr> stringId = sid str, time = 1016, yPosNormalized = 0.3 \<rparr>) ?strs, st')"
    by blast
  have ids: "map stringId (map (\<lambda>str. \<lparr> stringId = sid str, time = 1016, yPosNormalized = 0.3 \<rparr>) ?strs)
             = [0..<12]"
    using twelve_strings(3) by (simp add: comp_def)
  have times: "map time (map (\<lambda>str. \<lparr> stringId = sid str, time = 1016, yPosNormalized = 0.3 \<rparr>) ?strs)
             = replicate 12 (1016::real)"
    by (simp add: comp_def map_replicate_const)
  have gap: "time (map (\<lambda>str. \<lparr> stringId = sid str, time = 1016, yPosNormalized = 0.3 \<rparr>) ?strs ! 1)
             - time (map (\<lambda>str. \<lparr> stringId = sid str, time = 1016, yPosNormalized = 0.3 \<rparr>) ?strs ! 0)
             < DEBOUNCE_MS"
    by (simp add: DEBOUNCE_MS_def)
  show ?thesis unfolding run fst_conv snd_conv using ids times gap by blast
qed

end
